theory Spec2Isabelle
  imports Main
begin

section \<open>Data model (package models)\<close>

text \<open>
  Identifiers (\<open>uuid.UUID\<close>) are modelled as natural numbers, \<open>uuid.Nil\<close> being \<open>0\<close>;
  instants (\<open>time.Time\<close>) and durations as integers counting nanoseconds.
\<close>

type_synonym UUID = nat
type_synonym Time = int

definition uuid_Nil :: UUID where
  "uuid_Nil = 0"

datatype GameState = GameStateWaiting | GameStatePlaying | GameStateFinished

datatype PlayerColor = PlayerRed | PlayerYellow

text \<open>\<open>int(color)\<close>: the enumeration counts from \<open>iota\<close>, Red is 0 and Yellow is 1.\<close>

fun int_of_PlayerColor :: "PlayerColor \<Rightarrow> int" where
  "int_of_PlayerColor PlayerRed = 0"
| "int_of_PlayerColor PlayerYellow = 1"

text \<open>
  \<open>PlayerColor(n)\<close>, used by \<open>CheckWinner\<close> on a cell value minus one. The boards the
  program builds hold only 0, 1 or 2 in their cells (\<open>cells_ok\<close> below: true of the new
  board and kept by \<open>Game.MakeMove\<close>, the only writer), so the conversion is only met at
  0 and 1.
\<close>

definition PlayerColor_of_int :: "int \<Rightarrow> PlayerColor" where
  "PlayerColor_of_int n = (if n = 0 then PlayerRed else PlayerYellow)"

record Player =
  PID :: UUID
  Name :: string
  Color :: PlayerColor
  Number :: int
  IsBot :: bool
  Connected :: bool
  LastSeen :: Time

record Move =
  PlayerID :: UUID
  Column :: int
  Row :: int
  MoveColor :: PlayerColor
  Timestamp :: Time

text \<open>The board \<open>[6][7]int\<close>: six rows (row 0 is the top) of seven cells.\<close>

type_synonym Board = "int list list"

record Game =
  ID :: UUID
  State :: GameState
  Board :: Board
  Players :: "Player \<times> Player"
  CurrentTurn :: PlayerColor
  CurrentTurnNumber :: int
  Winner :: "PlayerColor option"
  CreatedAt :: Time
  FinishedAt :: "Time option"
  LastMove :: "Move option"

definition board_dims :: "Board \<Rightarrow> bool" where
  "board_dims b = (length b = 6 \<and> list_all (\<lambda>row. length row = 7) b)"

definition cells_ok :: "Board \<Rightarrow> bool" where
  "cells_ok b = list_all (list_all (\<lambda>x. x = 0 \<or> x = 1 \<or> x = 2)) b"

definition empty_board :: Board where
  "empty_board = replicate 6 (replicate 7 0)"

text \<open>\<open>g.Board[r][c]\<close>, read and written; every access in the source is guarded to be in range.\<close>

definition cell :: "Board \<Rightarrow> int \<Rightarrow> int \<Rightarrow> int" where
  "cell b r c = b ! nat r ! nat c"

definition set_cell :: "Board \<Rightarrow> int \<Rightarrow> int \<Rightarrow> int \<Rightarrow> Board" where
  "set_cell b r c v = b[nat r := (b ! nat r)[nat c := v]]"

section \<open>Board engine\<close>

definition IsValidMove :: "Game \<Rightarrow> int \<Rightarrow> bool" where
  "IsValidMove g column =
     (if column < 0 \<or> column \<ge> 7 then False
      else cell (Board g) 0 column = 0)"

text \<open>The loop \<open>for r := 5; r >= 0; r--\<close> of \<open>Game.MakeMove\<close>, with \<open>row := -1\<close> as its default.\<close>

fun find_row :: "Board \<Rightarrow> int \<Rightarrow> int list \<Rightarrow> int" where
  "find_row b column [] = -1"
| "find_row b column (r # rs) =
     (if cell b r column = 0 then r else find_row b column rs)"

text \<open>
  \<open>Game.MakeMove\<close>. The receiver is mutated in place, so the model returns the game after
  the call together with the result (\<open>None\<close> for \<open>nil\<close>); \<open>ts\<close> is the reading of
  \<open>time.Now()\<close>.
\<close>

definition Game_MakeMove :: "Time \<Rightarrow> Game \<Rightarrow> int \<Rightarrow> PlayerColor \<Rightarrow> Game \<times> Move option" where
  "Game_MakeMove ts g column color =
     (if \<not> IsValidMove g column then (g, None)
      else
        let row = find_row (Board g) column [5, 4, 3, 2, 1, 0] in
        if row = -1 then (g, None)
        else
          let move = \<lparr>PlayerID = uuid_Nil, Column = column, Row = row,
                      MoveColor = color, Timestamp = ts\<rparr>
          in (g\<lparr>Board := set_cell (Board g) row column (int_of_PlayerColor color + 1),
                LastMove := Some move\<rparr>, Some move))"

text \<open>\<open>checkLine\<close>: four cells from the start along \<open>(deltaRow, deltaCol)\<close>.\<close>

definition checkLine :: "Board \<Rightarrow> int \<Rightarrow> int \<Rightarrow> int \<Rightarrow> int \<Rightarrow> int \<Rightarrow> bool" where
  "checkLine b startRow startCol deltaRow deltaCol player =
     list_all (\<lambda>i.
        let row = startRow + i * deltaRow; col = startCol + i * deltaCol
        in \<not> (row < 0 \<or> row \<ge> 6 \<or> col < 0 \<or> col \<ge> 7 \<or> cell b row col \<noteq> player))
       [0, 1, 2, 3]"

text \<open>The body of the inner loop of \<open>CheckWinner\<close> at one cell: the colour it returns, if any.\<close>

definition check_cell :: "Board \<Rightarrow> int \<Rightarrow> int \<Rightarrow> PlayerColor option" where
  "check_cell b row col =
     (if cell b row col = 0 then None
      else
        let player = cell b row col in
        if col \<le> 3 \<and> checkLine b row col 0 1 player then Some (PlayerColor_of_int (player - 1))
        else if row \<le> 2 \<and> checkLine b row col 1 0 player then Some (PlayerColor_of_int (player - 1))
        else if row \<le> 2 \<and> col \<le> 3 \<and> checkLine b row col 1 1 player
          then Some (PlayerColor_of_int (player - 1))
        else if row \<le> 2 \<and> col \<ge> 3 \<and> checkLine b row col 1 (-1) player
          then Some (PlayerColor_of_int (player - 1))
        else None)"

fun scan_cols :: "Board \<Rightarrow> int \<Rightarrow> int list \<Rightarrow> PlayerColor option" where
  "scan_cols b row [] = None"
| "scan_cols b row (col # cols) =
     (case check_cell b row col of
        Some w \<Rightarrow> Some w
      | None \<Rightarrow> scan_cols b row cols)"

fun scan_rows :: "Board \<Rightarrow> int list \<Rightarrow> PlayerColor option" where
  "scan_rows b [] = None"
| "scan_rows b (row # rows) =
     (case scan_cols b row [0, 1, 2, 3, 4, 5, 6] of
        Some w \<Rightarrow> Some w
      | None \<Rightarrow> scan_rows b rows)"

definition CheckWinner :: "Game \<Rightarrow> PlayerColor option" where
  "CheckWinner g = scan_rows (Board g) [0, 1, 2, 3, 4, 5]"

definition IsBoardFull :: "Game \<Rightarrow> bool" where
  "IsBoardFull g = list_all (\<lambda>col. cell (Board g) 0 col \<noteq> 0) [0, 1, 2, 3, 4, 5, 6]"

section \<open>Bot strategy (package bot)\<close>

text \<open>
  \<open>findWinningMove\<close> tries the columns in ascending order. For each valid column it copies
  the game (\<open>testGame := *game\<close>), plays the colour on the copy and asks \<open>CheckWinner\<close>;
  \<open>-1\<close> means that no column wins. This is the function read on game values; the version
  on a store of game objects, which also says what happens to the object passed in, follows.
\<close>

fun findWinningMove_loop :: "Time \<Rightarrow> Game \<Rightarrow> PlayerColor \<Rightarrow> int list \<Rightarrow> int" where
  "findWinningMove_loop ts game color [] = -1"
| "findWinningMove_loop ts game color (col # cols) =
     (if \<not> IsValidMove game col then findWinningMove_loop ts game color cols
      else
        let (testGame, move) = Game_MakeMove ts game col color in
        if move = None then findWinningMove_loop ts game color cols
        else if CheckWinner testGame = Some color then col
        else findWinningMove_loop ts game color cols)"

definition findWinningMove :: "Time \<Rightarrow> Game \<Rightarrow> PlayerColor \<Rightarrow> int" where
  "findWinningMove ts game color = findWinningMove_loop ts game color [0, 1, 2, 3, 4, 5, 6]"

text \<open>The loop over \<open>centerColumns\<close>: the first valid column of the list.\<close>

fun first_valid :: "Game \<Rightarrow> int list \<Rightarrow> int option" where
  "first_valid game [] = None"
| "first_valid game (col # cols) =
     (if IsValidMove game col then Some col else first_valid game cols)"

definition centerColumns :: "int list" where
  "centerColumns = [3, 2, 4, 1, 5, 0, 6]"

text \<open>
  \<open>GetBestMove\<close>; \<open>rnd n\<close> stands for the value of \<open>rand.Intn(n)\<close>, which lies below \<open>n\<close>.
\<close>

definition GetBestMove :: "Time \<Rightarrow> (nat \<Rightarrow> nat) \<Rightarrow> Game \<Rightarrow> PlayerColor \<Rightarrow> int" where
  "GetBestMove ts rnd game botColor =
     (let move = findWinningMove ts game botColor in
      if move \<noteq> -1 then move
      else
        let opponentColor = (if botColor = PlayerRed then PlayerYellow else PlayerRed);
            move = findWinningMove ts game opponentColor
        in
        if move \<noteq> -1 then move
        else
          case first_valid game centerColumns of
            Some col \<Rightarrow> col
          | None \<Rightarrow>
              let validMoves = filter (IsValidMove game) [0, 1, 2, 3, 4, 5, 6] in
              if length validMoves > 0
              then validMoves ! (rnd (length validMoves) mod length validMoves)
              else -1)"

subsection \<open>The strategy on a store of game objects\<close>

text \<open>
  \<open>GetBestMove\<close> receives a pointer to the game, and \<open>Game.MakeMove\<close> writes through its
  receiver. To say which object a call writes to, games live in a store: \<open>objs\<close> maps an
  address to the game there, and \<open>fresh\<close> is the next address to hand out. A call through an
  address that holds no game (a nil pointer) panics: the result is \<open>None\<close>.
\<close>

record GameStore =
  objs :: "nat \<Rightarrow> Game option"
  fresh :: nat

definition alloc :: "GameStore \<Rightarrow> Game \<Rightarrow> GameStore \<times> nat" where
  "alloc s g = (s\<lparr>objs := (objs s)(fresh s \<mapsto> g), fresh := Suc (fresh s)\<rparr>, fresh s)"

definition MakeMove_at ::
  "Time \<Rightarrow> GameStore \<Rightarrow> nat \<Rightarrow> int \<Rightarrow> PlayerColor \<Rightarrow> (GameStore \<times> Move option) option" where
  "MakeMove_at ts s p column color =
     (case objs s p of
        None \<Rightarrow> None
      | Some g \<Rightarrow>
          let (g', move) = Game_MakeMove ts g column color
          in Some (s\<lparr>objs := (objs s)(p \<mapsto> g')\<rparr>, move))"

fun findWinningMove_at_loop ::
  "Time \<Rightarrow> GameStore \<Rightarrow> nat \<Rightarrow> PlayerColor \<Rightarrow> int list \<Rightarrow> (GameStore \<times> int) option" where
  "findWinningMove_at_loop ts s game color [] = Some (s, -1)"
| "findWinningMove_at_loop ts s game color (col # cols) =
     (case objs s game of
        None \<Rightarrow> None
      | Some g \<Rightarrow>
          if \<not> IsValidMove g col then findWinningMove_at_loop ts s game color cols
          else
            let (s1, testGame) = alloc s g in
            case MakeMove_at ts s1 testGame col color of
              None \<Rightarrow> None
            | Some (s2, move) \<Rightarrow>
                if move = None then findWinningMove_at_loop ts s2 game color cols
                else
                  (case objs s2 testGame of
                     None \<Rightarrow> None
                   | Some tg \<Rightarrow>
                       if CheckWinner tg = Some color then Some (s2, col)
                       else findWinningMove_at_loop ts s2 game color cols))"

definition findWinningMove_at ::
  "Time \<Rightarrow> GameStore \<Rightarrow> nat \<Rightarrow> PlayerColor \<Rightarrow> (GameStore \<times> int) option" where
  "findWinningMove_at ts s game color =
     findWinningMove_at_loop ts s game color [0, 1, 2, 3, 4, 5, 6]"

definition GetBestMove_at ::
  "Time \<Rightarrow> (nat \<Rightarrow> nat) \<Rightarrow> GameStore \<Rightarrow> nat \<Rightarrow> PlayerColor \<Rightarrow> (GameStore \<times> int) option" where
  "GetBestMove_at ts rnd s game botColor =
     (case findWinningMove_at ts s game botColor of
        None \<Rightarrow> None
      | Some (s1, move) \<Rightarrow>
          if move \<noteq> -1 then Some (s1, move)
          else
            let opponentColor = (if botColor = PlayerRed then PlayerYellow else PlayerRed) in
            case findWinningMove_at ts s1 game opponentColor of
              None \<Rightarrow> None
            | Some (s2, move) \<Rightarrow>
                if move \<noteq> -1 then Some (s2, move)
                else
                  (case objs s2 game of
                     None \<Rightarrow> None
                   | Some g \<Rightarrow>
                       (case first_valid g centerColumns of
                          Some col \<Rightarrow> Some (s2, col)
                        | None \<Rightarrow>
                            let validMoves = filter (IsValidMove g) [0, 1, 2, 3, 4, 5, 6] in
                            if length validMoves > 0
                            then Some (s2, validMoves ! (rnd (length validMoves) mod length validMoves))
                            else Some (s2, -1))))"

section \<open>Session registry (package game)\<close>

datatype GameError =
  ErrGameNotFound | ErrGameNotActive | ErrPlayerNotInGame | ErrNotPlayerTurn | ErrInvalidMove

record PlayerConnection =
  ConnPlayerID :: UUID
  ConnGameID :: UUID
  ConnLastSeen :: Time

text \<open>
  The manager's two maps. The manager's mutex is kept beside them, in the record
  \<open>Registry\<close> below, so that \<open>Manager_MakeMove\<close> reads as the body of the method, run while
  the lock is held. A game's players are reached through pointers; \<open>Manager.MakeMove\<close> and
  the sweep only read them, so the game record holds them by value.
\<close>

record Manager =
  games :: "UUID \<Rightarrow> Game option"
  players :: "UUID \<Rightarrow> PlayerConnection option"

definition players_list :: "Game \<Rightarrow> Player list" where
  "players_list g = [fst (Players g), snd (Players g)]"

text \<open>\<open>CreateGame\<close>; \<open>newID\<close> is the value of \<open>uuid.New()\<close>.\<close>

definition CreateGame :: "Time \<Rightarrow> UUID \<Rightarrow> Manager \<Rightarrow> Player \<Rightarrow> Player \<Rightarrow> Manager \<times> Game" where
  "CreateGame now newID m player1 player2 =
     (let game = \<lparr>ID = newID, State = GameStatePlaying, Board = empty_board,
                  Players = (player1\<lparr>Color := PlayerRed, Number := 1\<rparr>,
                             player2\<lparr>Color := PlayerYellow, Number := 2\<rparr>),
                  CurrentTurn = PlayerRed, CurrentTurnNumber = 1, Winner = None,
                  CreatedAt = now, FinishedAt = None, LastMove = None\<rparr>
      in (m\<lparr>games := (games m)(newID \<mapsto> game)\<rparr>, game))"

text \<open>The search for the player in \<open>Manager.MakeMove\<close>: the first of the two with this id.\<close>

definition find_player :: "Game \<Rightarrow> UUID \<Rightarrow> Player option" where
  "find_player game playerID = find (\<lambda>p. PID p = playerID) (players_list game)"

text \<open>
  \<open>Manager.MakeMove\<close>. \<open>ts\<close> is the clock read by \<open>Game.MakeMove\<close>, \<open>now\<close> the one read when
  the game ends. The move returned is the object \<open>game.LastMove\<close> points to, so setting its
  \<open>PlayerID\<close> shows in the game as well.
\<close>

definition Manager_MakeMove ::
  "Time \<Rightarrow> Time \<Rightarrow> Manager \<Rightarrow> UUID \<Rightarrow> UUID \<Rightarrow> int \<Rightarrow> Manager \<times> (GameError + Move)" where
  "Manager_MakeMove ts now m gameID playerID column =
     (case games m gameID of
        None \<Rightarrow> (m, Inl ErrGameNotFound)
      | Some game \<Rightarrow>
          if State game \<noteq> GameStatePlaying then (m, Inl ErrGameNotActive)
          else
            case find_player game playerID of
              None \<Rightarrow> (m, Inl ErrPlayerNotInGame)
            | Some player \<Rightarrow>
                if Color player \<noteq> CurrentTurn game then (m, Inl ErrNotPlayerTurn)
                else
                  let (game1, res) = Game_MakeMove ts game column (Color player) in
                  case res of
                    None \<Rightarrow> (m\<lparr>games := (games m)(gameID \<mapsto> game1)\<rparr>, Inl ErrInvalidMove)
                  | Some move0 \<Rightarrow>
                      let move = move0\<lparr>PlayerID := playerID\<rparr>;
                          game2 = game1\<lparr>LastMove := Some move\<rparr>;
                          game3 =
                            (case CheckWinner game2 of
                               Some winner \<Rightarrow>
                                 game2\<lparr>Winner := Some winner, State := GameStateFinished,
                                        FinishedAt := Some now\<rparr>
                             | None \<Rightarrow>
                                 if IsBoardFull game2
                                 then game2\<lparr>State := GameStateFinished, FinishedAt := Some now\<rparr>
                                 else if CurrentTurn game2 = PlayerRed
                                 then game2\<lparr>CurrentTurn := PlayerYellow, CurrentTurnNumber := 2\<rparr>
                                 else game2\<lparr>CurrentTurn := PlayerRed, CurrentTurnNumber := 1\<rparr>)
                      in (m\<lparr>games := (games m)(gameID \<mapsto> game3)\<rparr>, Inr move))"

subsection \<open>The disconnect sweep\<close>

record GameEndPayload =
  PayloadGameID :: UUID
  PayloadWinner :: "Player option"
  Reason :: string
  PayloadGameState :: Game
  Duration :: int
  IsDraw :: bool

record WSMessage =
  MsgType :: string
  Payload :: GameEndPayload

definition MsgGameEnd :: string where
  "MsgGameEnd = ''game_end''"

definition gracePeriod :: int where
  "gracePeriod = 30 * 1000000000"

text \<open>
  The mutex \<open>sync.RWMutex\<close> of the manager: free, held by one writer, or held by a number
  of readers. \<open>Lock\<close> and \<open>RLock\<close> give the mutex after the call, or \<open>None\<close> when the caller
  has to wait until the mutex is released. The mutex does not know its holder: a caller that
  holds the write lock and asks for the read lock waits like any other.
\<close>

datatype RWMutex = Unlocked | WriteLocked | ReadLocked nat

definition Lock :: "RWMutex \<Rightarrow> RWMutex option" where
  "Lock mu = (case mu of Unlocked \<Rightarrow> Some WriteLocked | WriteLocked \<Rightarrow> None | ReadLocked n \<Rightarrow> None)"

definition RLock :: "RWMutex \<Rightarrow> RWMutex option" where
  "RLock mu =
     (case mu of
        Unlocked \<Rightarrow> Some (ReadLocked 1)
      | ReadLocked n \<Rightarrow> Some (ReadLocked (Suc n))
      | WriteLocked \<Rightarrow> None)"

text \<open>The \<open>Manager\<close> struct: the two maps and the mutex.\<close>

record Registry =
  maps :: Manager
  mutex :: RWMutex

text \<open>
  \<open>Manager.MakeMove\<close> as it is called: \<open>m.mutex.Lock()\<close>, the body, and the deferred
  \<open>Unlock\<close>. The result is \<open>None\<close> when the call waits for the lock.
\<close>

definition MakeMove_call ::
  "Time \<Rightarrow> Time \<Rightarrow> Registry \<Rightarrow> UUID \<Rightarrow> UUID \<Rightarrow> int \<Rightarrow> Registry \<times> (GameError + Move) option" where
  "MakeMove_call ts now R gameID playerID column =
     (case Lock (mutex R) of
        None \<Rightarrow> (R, None)
      | Some mu \<Rightarrow>
          let (m', res) = Manager_MakeMove ts now (maps R) gameID playerID column
          in (R\<lparr>maps := m', mutex := Unlocked\<rparr>, Some res))"

text \<open>
  \<open>BroadcastToGame\<close>: \<open>m.mutex.RLock()\<close>, then the message goes to each player of the game
  who has an entry in the connection map, then the deferred \<open>RUnlock\<close>. The result lists the
  deliveries, as pairs of receiver and message; it is \<open>None\<close> when the call waits for the
  lock and so delivers nothing.
\<close>

definition BroadcastToGame :: "Registry \<Rightarrow> UUID \<Rightarrow> WSMessage \<Rightarrow> (UUID \<times> WSMessage) list option" where
  "BroadcastToGame R gameID message =
     (case RLock (mutex R) of
        None \<Rightarrow> None
      | Some mu \<Rightarrow>
          Some (case games (maps R) gameID of
                  None \<Rightarrow> []
                | Some game \<Rightarrow>
                    concat (map (\<lambda>player. case players (maps R) (PID player) of
                                           Some conn \<Rightarrow> [(PID player, message)]
                                         | None \<Rightarrow> [])
                                (players_list game))))"

text \<open>
  The loop over the players of one game in the sweep. On the first player who is not
  connected and was last seen more than the grace period ago, the game is ended and the
  loop left. \<open>now\<close> is the clock read at the start of the sweep, \<open>now2\<close> the clock read when
  the game ends. The result is the game and the message handed to \<open>BroadcastToGame\<close>, if any.
  \<open>game.Winner\<close> is set to the address of the colour field of the first connected player;
  no operation modelled here writes a player's colour, so the model stores the colour. The
  payload is the literal of the source: its \<open>Winner\<close> field is \<open>nil\<close>, its \<open>GameState\<close> field
  points to the game as it is then.
\<close>

fun cleanup_players ::
  "Time \<Rightarrow> Time \<Rightarrow> UUID \<Rightarrow> Game \<Rightarrow> Player list \<Rightarrow> Game \<times> WSMessage option" where
  "cleanup_players now now2 gameID game [] = (game, None)"
| "cleanup_players now now2 gameID game (player # ps) =
     (if \<not> Connected player \<and> now - LastSeen player > gracePeriod
      then
        let game1 = game\<lparr>State := GameStateFinished, FinishedAt := Some now2\<rparr>;
            game2 = (case find Connected (players_list game1) of
                       Some p \<Rightarrow> game1\<lparr>Winner := Some (Color p)\<rparr>
                     | None \<Rightarrow> game1)
        in (game2,
            Some \<lparr>MsgType = MsgGameEnd,
                  Payload = \<lparr>PayloadGameID = gameID, PayloadWinner = None,
                             Reason = ''Player disconnected'', PayloadGameState = game2,
                             Duration = 0, IsDraw = False\<rparr>\<rparr>)
      else cleanup_players now now2 gameID game ps)"

text \<open>The body of the loop over the games, for one game.\<close>

definition cleanup_game :: "Time \<Rightarrow> Time \<Rightarrow> UUID \<Rightarrow> Game \<Rightarrow> Game \<times> WSMessage option" where
  "cleanup_game now now2 gameID game =
     (if State game \<noteq> GameStatePlaying then (game, None)
      else cleanup_players now now2 gameID game (players_list game))"

text \<open>
  How a run of the sweep ends: it returns, having made the deliveries listed; or it waits for
  ever inside \<open>BroadcastToGame\<close>, called for the game and with the message given, after the
  deliveries listed; or it waits for the lock at its start.
\<close>

datatype SweepOutcome =
  SweepReturns "(UUID \<times> WSMessage) list"
| SweepBlocked UUID WSMessage "(UUID \<times> WSMessage) list"
| SweepWaits

fun deliveries :: "SweepOutcome \<Rightarrow> (UUID \<times> WSMessage) list" where
  "deliveries (SweepReturns sent) = sent"
| "deliveries (SweepBlocked gameID message sent) = sent"
| "deliveries SweepWaits = []"

fun blocked_message :: "SweepOutcome \<Rightarrow> WSMessage option" where
  "blocked_message (SweepReturns sent) = None"
| "blocked_message (SweepBlocked gameID message sent) = Some message"
| "blocked_message SweepWaits = None"

text \<open>
  The loop over the games of \<open>cleanupDisconnectedPlayers\<close>. The order in which
  \<open>range m.games\<close> yields the keys is not fixed by the language: it is the argument \<open>order\<close>.
  \<open>clock gameID\<close> is the clock read when that game is ended; \<open>sent\<close> collects the deliveries
  made so far. When \<open>BroadcastToGame\<close> waits, the loop goes no further: the games ended so
  far stay ended, the others are not looked at.
\<close>

fun cleanup_loop ::
  "Time \<Rightarrow> (UUID \<Rightarrow> Time) \<Rightarrow> UUID list \<Rightarrow> Registry \<Rightarrow> (UUID \<times> WSMessage) list
     \<Rightarrow> Registry \<times> SweepOutcome" where
  "cleanup_loop now clock [] R sent = (R, SweepReturns sent)"
| "cleanup_loop now clock (gameID # rest) R sent =
     (case games (maps R) gameID of
        None \<Rightarrow> cleanup_loop now clock rest R sent
      | Some game \<Rightarrow>
          let (game', msg) = cleanup_game now (clock gameID) gameID game;
              R1 = R\<lparr>maps := (maps R)\<lparr>games := (games (maps R))(gameID \<mapsto> game')\<rparr>\<rparr>
          in case msg of
               None \<Rightarrow> cleanup_loop now clock rest R1 sent
             | Some message \<Rightarrow>
                 (case BroadcastToGame R1 gameID message of
                    None \<Rightarrow> (R1, SweepBlocked gameID message sent)
                  | Some ds \<Rightarrow> cleanup_loop now clock rest R1 (sent @ ds)))"

text \<open>
  \<open>cleanupDisconnectedPlayers\<close>: \<open>m.mutex.Lock()\<close>, the loop, and the deferred \<open>Unlock\<close>,
  which runs when the method returns.
\<close>

definition cleanupDisconnectedPlayers ::
  "Time \<Rightarrow> (UUID \<Rightarrow> Time) \<Rightarrow> UUID list \<Rightarrow> Registry \<Rightarrow> Registry \<times> SweepOutcome" where
  "cleanupDisconnectedPlayers now clock order R =
     (case Lock (mutex R) of
        None \<Rightarrow> (R, SweepWaits)
      | Some mu \<Rightarrow>
          (case cleanup_loop now clock order (R\<lparr>mutex := mu\<rparr>) [] of
             (R', SweepReturns sent) \<Rightarrow> (R'\<lparr>mutex := Unlocked\<rparr>, SweepReturns sent)
           | (R', SweepBlocked gameID message sent) \<Rightarrow> (R', SweepBlocked gameID message sent)
           | (R', SweepWaits) \<Rightarrow> (R', SweepWaits)))"

subsection \<open>Sequences of operations\<close>

text \<open>
  Calls of \<open>MakeMove\<close> and runs of the sweep, one after the other, on a registry whose mutex
  is free at the start. A call that waits for the lock leaves the maps as they are.
\<close>

datatype Operation =
  OpMakeMove Time Time UUID UUID int
| OpSweep Time "UUID \<Rightarrow> Time" "UUID list"

fun apply_op :: "Operation \<Rightarrow> Registry \<Rightarrow> Registry" where
  "apply_op (OpMakeMove ts now gameID playerID column) R =
     fst (MakeMove_call ts now R gameID playerID column)"
| "apply_op (OpSweep now clock order) R = fst (cleanupDisconnectedPlayers now clock order R)"

definition run_ops :: "Operation list \<Rightarrow> Manager \<Rightarrow> Manager" where
  "run_ops ops m = maps (fold apply_op ops \<lparr>maps = m, mutex = Unlocked\<rparr>)"

section \<open>Matchmaking queue (package matchmaking)\<close>

record MatchPreferences =
  AllowBots :: bool
  SkillLevel :: int
  MaxWaitTime :: int

record QueueEntry =
  QPlayerID :: UUID
  Username :: string
  JoinedAt :: Time
  Preferences :: MatchPreferences

text \<open>
  The queue: the map \<open>entries\<close> from player id to entry, and the two channels \<open>addChan\<close> and
  \<open>removeChan\<close> (each buffered, capacity 100) with the values sent and not yet received,
  oldest first. The statistics of the queue and the bot timer of an entry play no part in
  the matching and are left out. An entry points to its preferences; \<open>Add\<close> puts the default
  preferences where it is given \<open>nil\<close>, so the entry holds them by value.
\<close>

record Queue =
  entries :: "UUID \<Rightarrow> QueueEntry option"
  addChan :: "QueueEntry list"
  removeChan :: "UUID list"

definition chanCap :: nat where
  "chanCap = 100"

text \<open>
  \<open>int64 x\<close> is the value a Go \<open>int\<close> (64 bits, two's complement) holds when the exact result
  is \<open>x\<close>: subtraction and negation wrap around. Values of fields of type \<open>int\<close> lie in the
  range of \<open>int64\<close>.
\<close>

definition int64 :: "int \<Rightarrow> int" where
  "int64 x = (x + 9223372036854775808) mod 18446744073709551616 - 9223372036854775808"

definition abs_int :: "int \<Rightarrow> int" where
  "abs_int x = (if x < 0 then int64 (- x) else x)"

definition areCompatible :: "QueueEntry \<Rightarrow> QueueEntry \<Rightarrow> bool" where
  "areCompatible player1 player2 =
     (let skillDiff =
            abs_int (int64 (SkillLevel (Preferences player1) - SkillLevel (Preferences player2)))
      in if skillDiff > 2 then False else True)"

text \<open>
  \<open>GetCompatibleMatch\<close> and \<open>GetAllEntries\<close> range over the map; the order in which the
  keys come is the argument \<open>order\<close>.
\<close>

fun GetCompatibleMatch_loop :: "Queue \<Rightarrow> QueueEntry \<Rightarrow> UUID list \<Rightarrow> QueueEntry option" where
  "GetCompatibleMatch_loop q entry [] = None"
| "GetCompatibleMatch_loop q entry (k # ks) =
     (case entries q k of
        None \<Rightarrow> GetCompatibleMatch_loop q entry ks
      | Some candidate \<Rightarrow>
          if QPlayerID candidate = QPlayerID entry then GetCompatibleMatch_loop q entry ks
          else if areCompatible entry candidate then Some candidate
          else GetCompatibleMatch_loop q entry ks)"

definition GetCompatibleMatch :: "UUID list \<Rightarrow> Queue \<Rightarrow> QueueEntry \<Rightarrow> QueueEntry option" where
  "GetCompatibleMatch order q entry = GetCompatibleMatch_loop q entry order"

definition GetAllEntries :: "UUID list \<Rightarrow> Queue \<Rightarrow> QueueEntry list" where
  "GetAllEntries order q = List.map_filter (entries q) order"

definition GetEntry :: "Queue \<Rightarrow> UUID \<Rightarrow> QueueEntry option" where
  "GetEntry q playerID = entries q playerID"

text \<open>
  The worker \<open>queueProcessor\<close> receives from one of the two channels and applies
  \<open>processAdd\<close> or \<open>processRemove\<close>; only the worker changes the map. A receive from an
  empty channel does not happen: the step leaves the queue as it is.
\<close>

definition processAdd :: "Queue \<Rightarrow> QueueEntry \<Rightarrow> Queue" where
  "processAdd q entry = q\<lparr>entries := (entries q)(QPlayerID entry \<mapsto> entry)\<rparr>"

definition processRemove :: "Queue \<Rightarrow> UUID \<Rightarrow> Queue" where
  "processRemove q playerID =
     (case entries q playerID of
        None \<Rightarrow> q
      | Some entry \<Rightarrow> q\<lparr>entries := (entries q)(playerID := None)\<rparr>)"

datatype Receive = FromAddChan | FromRemoveChan

fun queueProcessor_step :: "Receive \<Rightarrow> Queue \<Rightarrow> Queue" where
  "queueProcessor_step FromAddChan q =
     (case addChan q of
        [] \<Rightarrow> q
      | entry # rest \<Rightarrow> processAdd (q\<lparr>addChan := rest\<rparr>) entry)"
| "queueProcessor_step FromRemoveChan q =
     (case removeChan q of
        [] \<Rightarrow> q
      | playerID # rest \<Rightarrow> processRemove (q\<lparr>removeChan := rest\<rparr>) playerID)"

definition queueProcessor_run :: "Receive list \<Rightarrow> Queue \<Rightarrow> Queue" where
  "queueProcessor_run rs q = fold queueProcessor_step rs q"

text \<open>
  The worker runs beside the matching pass. \<open>sched t\<close> lists what the worker receives just
  before the pass touches the queue for the \<open>t\<close>-th time; the pass carries the count \<open>t\<close>
  along with the queue. Every interleaving of the two is given by some \<open>sched\<close>.
\<close>

definition worker_turn :: "(nat \<Rightarrow> Receive list) \<Rightarrow> nat \<times> Queue \<Rightarrow> nat \<times> Queue" where
  "worker_turn sched tq = (Suc (fst tq), queueProcessor_run (sched (fst tq)) (snd tq))"

text \<open>
  \<open>Remove\<close> sends the id on \<open>removeChan\<close> and returns; the entry stays in the map until the
  worker receives the id. \<open>Add\<close> makes a new entry, joined now, and sends it on \<open>addChan\<close>.
  A send on a full channel waits until the worker has received from that channel.
\<close>

definition Queue_Remove :: "Queue \<Rightarrow> UUID \<Rightarrow> Queue" where
  "Queue_Remove q playerID =
     (let q1 = (if length (removeChan q) \<ge> chanCap then queueProcessor_step FromRemoveChan q else q)
      in q1\<lparr>removeChan := removeChan q1 @ [playerID]\<rparr>)"

definition Queue_Add :: "Time \<Rightarrow> Queue \<Rightarrow> UUID \<Rightarrow> string \<Rightarrow> MatchPreferences option \<Rightarrow> Queue" where
  "Queue_Add now q playerID username preferences =
     (let prefs = (case preferences of
                     None \<Rightarrow> \<lparr>AllowBots = True, SkillLevel = 5, MaxWaitTime = 10\<rparr>
                   | Some p \<Rightarrow> p);
          entry = \<lparr>QPlayerID = playerID, Username = username, JoinedAt = now, Preferences = prefs\<rparr>;
          q1 = (if length (addChan q) \<ge> chanCap then queueProcessor_step FromAddChan q else q)
      in q1\<lparr>addChan := addChan q1 @ [entry]\<rparr>)"

text \<open>
  \<open>createPlayerMatch\<close>: both ids are sent for removal, then the game is created;
  \<open>creates id1 id2\<close> says whether \<open>gameCreator.CreateGame\<close> succeeds for the two players
  (the repository's \<open>DefaultGameCreator\<close> always does). When it fails both players are added
  again. The result says whether the match was created.
\<close>

definition createPlayerMatch ::
  "(nat \<Rightarrow> Receive list) \<Rightarrow> (UUID \<Rightarrow> UUID \<Rightarrow> bool) \<Rightarrow> (nat \<Rightarrow> Time) \<Rightarrow> nat \<times> Queue
     \<Rightarrow> QueueEntry \<Rightarrow> QueueEntry \<Rightarrow> (nat \<times> Queue) \<times> bool" where
  "createPlayerMatch sched creates clock tq entry1 entry2 =
     (let tq1 = worker_turn sched tq;
          tq2 = (fst tq1, Queue_Remove (snd tq1) (QPlayerID entry1));
          tq3 = worker_turn sched tq2;
          tq4 = (fst tq3, Queue_Remove (snd tq3) (QPlayerID entry2))
      in if creates (QPlayerID entry1) (QPlayerID entry2) then (tq4, True)
         else
           let tq5 = worker_turn sched tq4;
               tq6 = (fst tq5, Queue_Add (clock (fst tq5)) (snd tq5) (QPlayerID entry1)
                                  (Username entry1) (Some (Preferences entry1)));
               tq7 = worker_turn sched tq6;
               tq8 = (fst tq7, Queue_Add (clock (fst tq7)) (snd tq7) (QPlayerID entry2)
                                  (Username entry2) (Some (Preferences entry2)))
           in (tq8, False))"

text \<open>
  \<open>processMatches\<close>: the loop over the entries read at the start. \<open>iter playerID\<close> is the
  order in which the map is ranged over when a partner for that player is looked for. The
  result lists the calls of \<open>createPlayerMatch\<close> in order: the two entries, and whether the
  match was created.
\<close>

fun processMatches_loop ::
  "(nat \<Rightarrow> Receive list) \<Rightarrow> (UUID \<Rightarrow> UUID \<Rightarrow> bool) \<Rightarrow> (nat \<Rightarrow> Time) \<Rightarrow> (UUID \<Rightarrow> UUID list)
     \<Rightarrow> QueueEntry list \<Rightarrow> nat \<times> Queue
     \<Rightarrow> (nat \<times> Queue) \<times> (QueueEntry \<times> QueueEntry \<times> bool) list" where
  "processMatches_loop sched creates clock iter [] tq = (tq, [])"
| "processMatches_loop sched creates clock iter (entry1 # rest) tq =
     (let tq1 = worker_turn sched tq in
      case GetEntry (snd tq1) (QPlayerID entry1) of
        None \<Rightarrow> processMatches_loop sched creates clock iter rest tq1
      | Some e \<Rightarrow>
          let tq2 = worker_turn sched tq1 in
          (case GetCompatibleMatch (iter (QPlayerID entry1)) (snd tq2) entry1 of
             None \<Rightarrow> processMatches_loop sched creates clock iter rest tq2
           | Some found \<Rightarrow>
               let (tq3, ok) = createPlayerMatch sched creates clock tq2 entry1 found;
                   (tq4, calls) = processMatches_loop sched creates clock iter rest tq3
               in (tq4, (entry1, found, ok) # calls)))"

definition processMatches ::
  "UUID list \<Rightarrow> (UUID \<Rightarrow> UUID list) \<Rightarrow> (nat \<Rightarrow> Receive list) \<Rightarrow> (UUID \<Rightarrow> UUID \<Rightarrow> bool)
     \<Rightarrow> (nat \<Rightarrow> Time) \<Rightarrow> Queue \<Rightarrow> (nat \<times> Queue) \<times> (QueueEntry \<times> QueueEntry \<times> bool) list" where
  "processMatches order iter sched creates clock q =
     (let tq1 = worker_turn sched (0, q)
      in processMatches_loop sched creates clock iter (GetAllEntries order (snd tq1)) tq1)"

section \<open>The specification's wording\<close>

text \<open>
  \<open>first_some f xs\<close> is the first result \<open>f\<close> gives along \<open>xs\<close>: a loop that returns from
  inside its body.
\<close>

fun first_some :: "('a \<Rightarrow> 'b option) \<Rightarrow> 'a list \<Rightarrow> 'b option" where
  "first_some f [] = None"
| "first_some f (x # xs) = (case f x of Some y \<Rightarrow> Some y | None \<Rightarrow> first_some f xs)"

text \<open>
  The winner as the specification describes it: the cells in ascending row order, then
  ascending column order; at each occupied cell the four directions right, down, down-right,
  down-left, in this order; a direction matches when the four cells along it are on the board
  and hold the colour of the first.
\<close>

definition in_bounds :: "int \<Rightarrow> int \<Rightarrow> bool" where
  "in_bounds r c = (0 \<le> r \<and> r < 6 \<and> 0 \<le> c \<and> c < 7)"

definition four_in_line :: "Board \<Rightarrow> int \<Rightarrow> int \<Rightarrow> int \<times> int \<Rightarrow> bool" where
  "four_in_line b r c d =
     list_all (\<lambda>i. in_bounds (r + i * fst d) (c + i * snd d)
                  \<and> cell b (r + i * fst d) (c + i * snd d) = cell b r c) [0, 1, 2, 3]"

definition directions :: "(int \<times> int) list" where
  "directions = [(0, 1), (1, 0), (1, 1), (1, -1)]"

definition scan_order :: "(int \<times> int) list" where
  "scan_order = concat (map (\<lambda>r. map (\<lambda>c. (r, c)) [0, 1, 2, 3, 4, 5, 6]) [0, 1, 2, 3, 4, 5])"

definition spec_tests :: "((int \<times> int) \<times> (int \<times> int)) list" where
  "spec_tests = concat (map (\<lambda>rc. map (\<lambda>d. (rc, d)) directions) scan_order)"

text \<open>
  The colour a cell holds: a cell is empty or holds one of the two colours, and
  \<open>Game.MakeMove\<close> stores the colour \<open>c\<close> as \<open>int(c) + 1\<close>.
\<close>

definition cell_colour :: "int \<Rightarrow> PlayerColor option" where
  "cell_colour v =
     (if v = int_of_PlayerColor PlayerRed + 1 then Some PlayerRed
      else if v = int_of_PlayerColor PlayerYellow + 1 then Some PlayerYellow
      else None)"

definition spec_CheckWinner :: "Board \<Rightarrow> PlayerColor option" where
  "spec_CheckWinner b =
     (case find (\<lambda>((r, c), d). cell b r c \<noteq> 0 \<and> four_in_line b r c d) spec_tests of
        None \<Rightarrow> None
      | Some ((r, c), d) \<Rightarrow> cell_colour (cell b r c))"

text \<open>
  The bot's priorities as the specification describes them: a column wins for a colour when
  it is valid and the board with that colour placed in it has that colour as winner.
\<close>

definition wins_by :: "Time \<Rightarrow> Game \<Rightarrow> PlayerColor \<Rightarrow> int \<Rightarrow> bool" where
  "wins_by ts g color col =
     (IsValidMove g col \<and> CheckWinner (fst (Game_MakeMove ts g col color)) = Some color)"

definition opponent_of :: "PlayerColor \<Rightarrow> PlayerColor" where
  "opponent_of color = (case color of PlayerRed \<Rightarrow> PlayerYellow | PlayerYellow \<Rightarrow> PlayerRed)"

definition spec_strategy :: "Time \<Rightarrow> Game \<Rightarrow> PlayerColor \<Rightarrow> int option" where
  "spec_strategy ts g botColor =
     (case find (wins_by ts g botColor) [0, 1, 2, 3, 4, 5, 6] of
        Some col \<Rightarrow> Some col
      | None \<Rightarrow>
          (case find (wins_by ts g (opponent_of botColor)) [0, 1, 2, 3, 4, 5, 6] of
             Some col \<Rightarrow> Some col
           | None \<Rightarrow> find (IsValidMove g) [3, 2, 4, 1, 5, 0, 6]))"

text \<open>A session that is still being played has no winner recorded yet.\<close>

definition manager_inv :: "Manager \<Rightarrow> bool" where
  "manager_inv m =
     (\<forall>gameID g. games m gameID = Some g \<longrightarrow> State g = GameStatePlaying \<longrightarrow> Winner g = None)"

section \<open>Example data\<close>

definition alice :: Player where
  "alice = \<lparr>PID = 10, Name = ''alice'', Color = PlayerRed, Number = 1, IsBot = False,
            Connected = False, LastSeen = 0\<rparr>"

definition bob :: Player where
  "bob = \<lparr>PID = 20, Name = ''bob'', Color = PlayerYellow, Number = 2, IsBot = False,
          Connected = True, LastSeen = 0\<rparr>"

definition game_with :: "GameState \<Rightarrow> Board \<Rightarrow> Player \<times> Player \<Rightarrow> PlayerColor \<Rightarrow> Game" where
  "game_with st b ps turn =
     \<lparr>ID = 1, State = st, Board = b, Players = ps, CurrentTurn = turn,
      CurrentTurnNumber = int_of_PlayerColor turn + 1, Winner = None, CreatedAt = 0,
      FinishedAt = None, LastMove = None\<rparr>"

definition manager_with :: "Game \<Rightarrow> Manager" where
  "manager_with g =
     \<lparr>games = Map.empty(1 \<mapsto> g),
      players = Map.empty(20 \<mapsto> \<lparr>ConnPlayerID = 20, ConnGameID = 1, ConnLastSeen = 0\<rparr>)\<rparr>"

text \<open>Red holds three in columns 0 and 4; Yellow is to move and has no winning column.\<close>

definition two_threats :: Board where
  "two_threats =
     [ [0, 0, 0, 0, 0, 0, 0],
      [0, 0, 0, 0, 0, 0, 0],
      [0, 0, 0, 0, 0, 0, 0],
      [1, 0, 0, 0, 1, 0, 0],
      [1, 2, 0, 2, 1, 0, 2],
      [1, 2, 0, 2, 1, 1, 2]]"

text \<open>Red holds three in column 4 only.\<close>

definition one_threat :: Board where
  "one_threat =
     [ [0, 0, 0, 0, 0, 0, 0],
      [0, 0, 0, 0, 0, 0, 0],
      [0, 0, 0, 0, 0, 0, 0],
      [0, 0, 0, 0, 1, 0, 0],
      [0, 2, 0, 0, 1, 0, 0],
      [0, 2, 0, 2, 1, 0, 0]]"

text \<open>A full board without four in a line.\<close>

definition drawn_board :: Board where
  "drawn_board =
     [ [1, 1, 2, 2, 1, 1, 2],
      [2, 2, 1, 1, 2, 2, 1],
      [1, 1, 2, 2, 1, 1, 2],
      [2, 2, 1, 1, 2, 2, 1],
      [1, 1, 2, 2, 1, 1, 2],
      [2, 2, 1, 1, 2, 2, 1]]"

definition queue_entry :: "UUID \<Rightarrow> Time \<Rightarrow> int \<Rightarrow> QueueEntry" where
  "queue_entry playerID t skill =
     \<lparr>QPlayerID = playerID, Username = ''player'', JoinedAt = t,
      Preferences = \<lparr>AllowBots = True, SkillLevel = skill, MaxWaitTime = 10\<rparr>\<rparr>"

definition three_waiting :: Queue where
  "three_waiting =
     \<lparr>entries = Map.empty(1 \<mapsto> queue_entry 1 10 5, 2 \<mapsto> queue_entry 2 20 5,
                            3 \<mapsto> queue_entry 3 30 5),
      addChan = [], removeChan = []\<rparr>"

definition idle_worker :: "nat \<Rightarrow> Receive list" where
  "idle_worker t = []"

definition always_created :: "UUID \<Rightarrow> UUID \<Rightarrow> bool" where
  "always_created id1 id2 = True"

definition pass_clock :: "nat \<Rightarrow> Time" where
  "pass_clock t = 40"

definition registry_with :: "Manager \<Rightarrow> Registry" where
  "registry_with m = \<lparr>maps = m, mutex = Unlocked\<rparr>"

definition bob_offline :: Player where
  "bob_offline = bob\<lparr>Connected := False\<rparr>"

text \<open>Two Playing sessions, 1 and 2, in which nobody is connected.\<close>

definition two_abandoned :: Manager where
  "two_abandoned =
     \<lparr>games = Map.empty(1 \<mapsto> game_with GameStatePlaying empty_board
                                   (alice, bob_offline) PlayerRed,
                          2 \<mapsto> (game_with GameStatePlaying empty_board
                                   (alice, bob_offline) PlayerRed)\<lparr>ID := 2\<rparr>),
      players = Map.empty\<rparr>"

text \<open>Yellow holds four in row 4, Red four in row 5 below it.\<close>

definition yellow_over_red :: Board where
  "yellow_over_red =
     [ [0, 0, 0, 0, 0, 0, 0],
      [0, 0, 0, 0, 0, 0, 0],
      [0, 0, 0, 0, 0, 0, 0],
      [0, 0, 0, 0, 0, 0, 0],
      [2, 2, 2, 2, 0, 0, 0],
      [1, 1, 1, 1, 0, 0, 0]]"

text \<open>Red holds the four left cells of the bottom row.\<close>

definition bottom_four :: Board where
  "bottom_four =
     [ [0, 0, 0, 0, 0, 0, 0],
      [0, 0, 0, 0, 0, 0, 0],
      [0, 0, 0, 0, 0, 0, 0],
      [0, 0, 0, 0, 0, 0, 0],
      [2, 2, 2, 0, 0, 0, 0],
      [1, 1, 1, 1, 0, 0, 0]]"

text \<open>Red holds three of the bottom row and is to move.\<close>

definition bottom_three :: Board where
  "bottom_three =
     [ [0, 0, 0, 0, 0, 0, 0],
      [0, 0, 0, 0, 0, 0, 0],
      [0, 0, 0, 0, 0, 0, 0],
      [0, 0, 0, 0, 0, 0, 0],
      [2, 2, 2, 0, 0, 0, 0],
      [1, 1, 1, 0, 0, 0, 0]]"

definition first_choice :: "nat \<Rightarrow> nat" where
  "first_choice n = 0"

definition newest_first :: "UUID \<Rightarrow> UUID list" where
  "newest_first playerID = [3, 2, 1]"

definition store_with :: "Game \<Rightarrow> GameStore" where
  "store_with g = \<lparr>objs = Map.empty(0 \<mapsto> g), fresh = 1\<rparr>"

definition sweep_clock :: "UUID \<Rightarrow> Time" where
  "sweep_clock gameID = 31000000005"

section \<open>Auxiliary notions for the proofs\<close>

text \<open>
  What \<open>Manager.MakeMove\<close> leaves in the map once the board has taken the move: \<open>g1\<close> is the
  game after \<open>Game.MakeMove\<close>, \<open>mv\<close> the move returned, \<open>turn\<close> the colour that moved.
\<close>

definition after_move :: "Time \<Rightarrow> Move \<Rightarrow> PlayerColor \<Rightarrow> Game \<Rightarrow> Game" where
  "after_move now mv turn g1 =
     (case CheckWinner g1 of
        Some winner \<Rightarrow> g1\<lparr>LastMove := Some mv, Winner := Some winner,
                           State := GameStateFinished, FinishedAt := Some now\<rparr>
      | None \<Rightarrow>
          if IsBoardFull g1
          then g1\<lparr>LastMove := Some mv, State := GameStateFinished, FinishedAt := Some now\<rparr>
          else g1\<lparr>LastMove := Some mv, CurrentTurn := opponent_of turn,
                  CurrentTurnNumber := int_of_PlayerColor (opponent_of turn) + 1\<rparr>)"

text \<open>
  \<open>session_kept g g'\<close>: every occupied cell of \<open>g\<close> holds the same value in \<open>g'\<close>, and if
  \<open>g\<close> is finished then \<open>g'\<close> is finished with the same board, winner and finish time.
\<close>

definition session_kept :: "Game \<Rightarrow> Game \<Rightarrow> bool" where
  "session_kept g g' =
     ((\<forall>r c. cell (Board g) r c \<noteq> 0 \<longrightarrow> cell (Board g') r c = cell (Board g) r c)
      \<and> (State g = GameStateFinished \<longrightarrow>
            State g' = GameStateFinished \<and> Board g' = Board g \<and> Winner g' = Winner g
            \<and> FinishedAt g' = FinishedAt g))"

section \<open>Properties of the board engine\<close>

lemma cell_set_cell:
  "cell (set_cell b r c v) r' c' =
     (if nat r' = nat r \<and> nat r < length b \<and> nat c' = nat c \<and> nat c < length (b ! nat r)
      then v else cell b r' c')"
proof (cases "nat r < length b")
  case True
  show ?thesis
  proof (cases "nat r' = nat r")
    case eq: True
    show ?thesis
    proof (cases "nat c < length (b ! nat r)")
      case True
      with \<open>nat r < length b\<close> eq show ?thesis
        by (simp add: cell_def set_cell_def nth_list_update)
    next
      case False
      then have "(b ! nat r)[nat c := v] = b ! nat r"
        by (simp add: list_update_beyond not_less)
      with False \<open>nat r < length b\<close> eq show ?thesis
        by (simp add: cell_def set_cell_def)
    qed
  next
    case False
    then show ?thesis by (simp add: cell_def set_cell_def)
  qed
next
  case False
  then show ?thesis by (simp add: cell_def set_cell_def list_update_beyond not_less)
qed

lemma board_dims_row: "board_dims b \<Longrightarrow> 0 \<le> r \<Longrightarrow> r < 6 \<Longrightarrow> length (b ! nat r) = 7"
  by (auto simp: board_dims_def list_all_length)

lemma board_dims_set_cell: "board_dims b \<Longrightarrow> board_dims (set_cell b r c v)"
proof (cases "nat r < length b")
  case True
  assume "board_dims b"
  with True show ?thesis
    unfolding board_dims_def set_cell_def list_all_length
    by (auto simp: nth_list_update)
next
  case False
  assume "board_dims b"
  with False show ?thesis
    by (simp add: set_cell_def list_update_beyond not_less)
qed

lemma find_row_top:
  "cell b 0 c = 0 \<Longrightarrow> find_row b c [5, 4, 3, 2, 1, 0] \<in> {0, 1, 2, 3, 4, 5}"
  by simp

lemma find_row_empty: "cell b 0 c = 0 \<Longrightarrow> cell b (find_row b c [5, 4, 3, 2, 1, 0]) c = 0"
  by simp

lemma find_row_below:
  assumes "cell b 0 c = 0" "find_row b c [5, 4, 3, 2, 1, 0] < r" "r < 6"
  shows "cell b r c \<noteq> 0"
proof -
  from assms(1) have "0 \<le> find_row b c [5, 4, 3, 2, 1, 0]" by simp
  with assms(2,3) have "r = 1 \<or> r = 2 \<or> r = 3 \<or> r = 4 \<or> r = 5" by arith
  then consider "r = 1" | "r = 2" | "r = 3" | "r = 4" | "r = 5" by blast
  then show ?thesis using assms(1,2) by cases (auto split: if_splits)
qed

lemma int_of_PlayerColor_pos: "int_of_PlayerColor color + 1 \<noteq> 0"
  by (cases color) simp_all

lemma cells_ok_empty_board: "cells_ok empty_board"
  by (simp add: cells_ok_def empty_board_def list_all_iff)

lemma cells_ok_set_cell:
  assumes "cells_ok b" "v = 0 \<or> v = 1 \<or> v = 2"
  shows "cells_ok (set_cell b r c v)"
proof (cases "nat r < length b")
  case False
  with assms(1) show ?thesis by (simp add: set_cell_def list_update_beyond not_less)
next
  case True
  from assms(1) True have row: "list_all (\<lambda>x. x = 0 \<or> x = 1 \<or> x = 2) (b ! nat r)"
    by (simp add: cells_ok_def list_all_length)
  have "list_all (\<lambda>x. x = 0 \<or> x = 1 \<or> x = 2) ((b ! nat r)[nat c := v])"
  proof (cases "nat c < length (b ! nat r)")
    case False
    with row show ?thesis by (simp add: list_update_beyond not_less)
  next
    case True
    with row assms(2) show ?thesis
      unfolding list_all_length by (auto simp: nth_list_update)
  qed
  with assms(1) True show ?thesis
    unfolding cells_ok_def set_cell_def list_all_length by (auto simp: nth_list_update)
qed

lemma cells_ok_Game_MakeMove:
  "cells_ok (Board g) \<Longrightarrow> cells_ok (Board (fst (Game_MakeMove ts g column color)))"
  by (cases color) (auto simp: Game_MakeMove_def Let_def cells_ok_set_cell simp del: find_row.simps)

text \<open>
  Claim C3. On a board of six rows of seven cells, \<open>Game.MakeMove\<close> returns a move exactly
  when the column is in \<open>0..6\<close> and its top cell is empty. The move then names the lowest
  empty row of the column (the row is empty and every row below it is occupied), that cell
  holds the colour afterwards, and a cell of the board differs from before exactly when it is
  that cell. When no move is returned the game is as it was.
\<close>

theorem board_move:
  assumes "board_dims (Board g)"
  shows
   "((snd (Game_MakeMove ts g column color) \<noteq> None)
        = (0 \<le> column \<and> column < 7 \<and> cell (Board g) 0 column = 0))
    \<and> (\<forall>mv. snd (Game_MakeMove ts g column color) = Some mv \<longrightarrow>
          Column mv = column \<and> MoveColor mv = color
        \<and> 0 \<le> Row mv \<and> Row mv < 6
        \<and> cell (Board g) (Row mv) column = 0
        \<and> (\<forall>r. Row mv < r \<and> r < 6 \<longrightarrow> cell (Board g) r column \<noteq> 0)
        \<and> cell (Board (fst (Game_MakeMove ts g column color))) (Row mv) column
             = int_of_PlayerColor color + 1
        \<and> (\<forall>r c. 0 \<le> r \<and> r < 6 \<and> 0 \<le> c \<and> c < 7 \<longrightarrow>
              (cell (Board (fst (Game_MakeMove ts g column color))) r c \<noteq> cell (Board g) r c)
                = (r = Row mv \<and> c = column)))
    \<and> (snd (Game_MakeMove ts g column color) = None \<longrightarrow>
          fst (Game_MakeMove ts g column color) = g)"
proof (cases "IsValidMove g column")
  case False
  then have "Game_MakeMove ts g column color = (g, None)"
    by (simp add: Game_MakeMove_def)
  moreover from False have "\<not> (0 \<le> column \<and> column < 7 \<and> cell (Board g) 0 column = 0)"
    by (auto simp: IsValidMove_def)
  ultimately show ?thesis by simp
next
  case True
  then have col: "0 \<le> column" "column < 7" and top: "cell (Board g) 0 column = 0"
    by (auto simp: IsValidMove_def split: if_splits)
  define row where "row = find_row (Board g) column [5, 4, 3, 2, 1, 0]"
  have row_in: "row \<in> {0, 1, 2, 3, 4, 5}"
    unfolding row_def using top by (rule find_row_top)
  then have row_rng: "0 \<le> row" "row < 6" "row \<noteq> -1" by auto
  have row_empty: "cell (Board g) row column = 0"
    unfolding row_def using top by (rule find_row_empty)
  have row_below: "\<And>r. row < r \<Longrightarrow> r < 6 \<Longrightarrow> cell (Board g) r column \<noteq> 0"
    unfolding row_def using top by (rule find_row_below)
  define mv where "mv = \<lparr>PlayerID = uuid_Nil, Column = column, Row = row,
                      MoveColor = color, Timestamp = ts\<rparr>"
  define b' where "b' = set_cell (Board g) row column (int_of_PlayerColor color + 1)"
  have res: "Game_MakeMove ts g column color = (g\<lparr>Board := b', LastMove := Some mv\<rparr>, Some mv)"
    unfolding Game_MakeMove_def Let_def row_def[symmetric] mv_def b'_def
    using True row_rng(3) by simp
  have len: "nat row < length (Board g)" "nat column < length (Board g ! nat row)"
    using assms row_rng col board_dims_row[OF assms row_rng(1,2)]
    by (auto simp: board_dims_def)
  have cell': "\<And>r c. 0 \<le> r \<Longrightarrow> 0 \<le> c \<Longrightarrow>
      cell b' r c = (if r = row \<and> c = column then int_of_PlayerColor color + 1 else cell (Board g) r c)"
    using len row_rng(1) col(1) by (auto simp: b'_def cell_set_cell)
  have changed: "\<And>r c. 0 \<le> r \<Longrightarrow> 0 \<le> c \<Longrightarrow>
      (cell b' r c \<noteq> cell (Board g) r c) = (r = row \<and> c = column)"
    using row_empty int_of_PlayerColor_pos[of color] by (auto simp: cell')
  show ?thesis
    using col top row_rng row_empty row_below cell'[OF row_rng(1) col(1)] changed
    by (simp add: res mv_def)
qed

theorem board_move_witness:
  "board_dims (Board (game_with GameStatePlaying one_threat (alice, bob) PlayerYellow))
   \<and> snd (Game_MakeMove 7 (game_with GameStatePlaying one_threat (alice, bob) PlayerYellow) 4 PlayerYellow)
       = Some \<lparr>PlayerID = uuid_Nil, Column = 4, Row = 2, MoveColor = PlayerYellow, Timestamp = 7\<rparr>
   \<and> cell (Board (fst (Game_MakeMove 7 (game_with GameStatePlaying one_threat (alice, bob) PlayerYellow)
                         4 PlayerYellow))) 2 4 = 2
   \<and> snd (Game_MakeMove 7 (game_with GameStatePlaying drawn_board (alice, bob) PlayerYellow) 4 PlayerYellow)
       = None"
proof -
  have d: "board_dims (Board (game_with GameStatePlaying one_threat (alice, bob) PlayerYellow))"
    by (simp add: game_with_def one_threat_def board_dims_def)
  have d': "board_dims (Board (game_with GameStatePlaying drawn_board (alice, bob) PlayerYellow))"
    by (simp add: game_with_def drawn_board_def board_dims_def)
  have mv: "snd (Game_MakeMove 7 (game_with GameStatePlaying one_threat (alice, bob) PlayerYellow) 4 PlayerYellow)
       = Some \<lparr>PlayerID = uuid_Nil, Column = 4, Row = 2, MoveColor = PlayerYellow, Timestamp = 7\<rparr>"
    by (simp add: Game_MakeMove_def Let_def IsValidMove_def game_with_def one_threat_def cell_def)
  from board_move[OF d, of 7 4 PlayerYellow] mv
  have "cell (Board (fst (Game_MakeMove 7 (game_with GameStatePlaying one_threat (alice, bob) PlayerYellow)
                         4 PlayerYellow))) 2 4 = 2"
    by simp
  moreover from board_move[OF d', of 7 4 PlayerYellow]
  have "snd (Game_MakeMove 7 (game_with GameStatePlaying drawn_board (alice, bob) PlayerYellow) 4 PlayerYellow)
       = None"
    by (simp add: game_with_def drawn_board_def cell_def)
  ultimately show ?thesis using d mv by simp
qed

lemma manager_games_triv: "m\<lparr>games := (games m)(k \<mapsto> g)\<rparr> = m" if "games m k = Some g"
  using that by (simp add: fun_upd_idem)

lemma Game_MakeMove_None: "snd (Game_MakeMove ts g column color) = None \<Longrightarrow> fst (Game_MakeMove ts g column color) = g"
  by (auto simp: Game_MakeMove_def Let_def split: if_splits)

section \<open>The winner scan\<close>

lemma first_some_map: "first_some f (map g xs) = first_some (\<lambda>x. f (g x)) xs"
  by (induction xs) (simp_all split: option.splits)

lemma first_some_concat:
  "first_some f (concat xss) = first_some (\<lambda>xs. first_some f xs) xss"
proof (induction xss)
  case Nil
  show ?case by simp
next
  case (Cons xs xss)
  have "first_some f (xs @ ys) = (case first_some f xs of Some y \<Rightarrow> Some y | None \<Rightarrow> first_some f ys)" for ys
    by (induction xs) (simp_all split: option.splits)
  with Cons show ?case by (simp split: option.splits)
qed

lemma find_first_some:
  "(case find P xs of None \<Rightarrow> None | Some x \<Rightarrow> Some (h x))
     = first_some (\<lambda>x. if P x then Some (h x) else None) xs"
  by (induction xs) simp_all

lemma scan_cols_first_some: "scan_cols b row cols = first_some (check_cell b row) cols"
  by (induction cols) (simp_all split: option.splits)

lemma scan_rows_first_some:
  "scan_rows b rows = first_some (\<lambda>row. scan_cols b row [0, 1, 2, 3, 4, 5, 6]) rows"
  by (induction rows) (simp_all split: option.splits)

lemma line_right: "(col \<le> 3 \<and> checkLine b row col 0 1 (cell b row col)) = four_in_line b row col (0, 1)"
  by (auto simp: checkLine_def four_in_line_def in_bounds_def)

lemma line_down: "(row \<le> 2 \<and> checkLine b row col 1 0 (cell b row col)) = four_in_line b row col (1, 0)"
  by (auto simp: checkLine_def four_in_line_def in_bounds_def)

lemma line_down_right:
  "(row \<le> 2 \<and> col \<le> 3 \<and> checkLine b row col 1 1 (cell b row col)) = four_in_line b row col (1, 1)"
  by (auto simp: checkLine_def four_in_line_def in_bounds_def)

lemma line_down_left:
  "(row \<le> 2 \<and> col \<ge> 3 \<and> checkLine b row col 1 (-1) (cell b row col)) = four_in_line b row col (1, -1)"
  by (auto simp: checkLine_def four_in_line_def in_bounds_def)

lemma check_cell_spec:
  "check_cell b row col =
     first_some (\<lambda>d. if cell b row col \<noteq> 0 \<and> four_in_line b row col d
                      then Some (PlayerColor_of_int (cell b row col - 1)) else None) directions"
  unfolding check_cell_def Let_def line_right line_down line_down_right line_down_left directions_def
  by simp

lemma cells_ok_cell:
  assumes "board_dims b" "cells_ok b" "in_bounds r c"
  shows "cell b r c = 1 \<or> cell b r c = 2 \<or> cell b r c = 0"
proof -
  from assms(3) have r: "nat r < 6" and c: "nat c < 7" by (auto simp: in_bounds_def)
  from assms(1) r have len: "nat r < length b" "length (b ! nat r) = 7"
    by (auto simp: board_dims_def list_all_length)
  from assms(2) len(1) have "list_all (\<lambda>x. x = 0 \<or> x = 1 \<or> x = 2) (b ! nat r)"
    by (simp add: cells_ok_def list_all_length)
  with c len(2) have "b ! nat r ! nat c = 0 \<or> b ! nat r ! nat c = 1 \<or> b ! nat r ! nat c = 2"
    by (simp add: list_all_length)
  then show ?thesis by (auto simp: cell_def)
qed

lemma cell_colour_conv:
  "v = 1 \<or> v = 2 \<Longrightarrow> Some (PlayerColor_of_int (v - 1)) = cell_colour v"
  by (auto simp: PlayerColor_of_int_def cell_colour_def)

lemma four_in_line_in_bounds: "four_in_line b r c d \<Longrightarrow> in_bounds r c"
  by (simp add: four_in_line_def)

lemma check_winner_first_test:
  "CheckWinner g =
     (case find (\<lambda>x. cell (Board g) (fst (fst x)) (snd (fst x)) \<noteq> 0
                     \<and> four_in_line (Board g) (fst (fst x)) (snd (fst x)) (snd x)) spec_tests of
        None \<Rightarrow> None
      | Some x \<Rightarrow> Some (PlayerColor_of_int (cell (Board g) (fst (fst x)) (snd (fst x)) - 1)))"
proof -
  define P where "P = (\<lambda>x. cell (Board g) (fst (fst x)) (snd (fst x)) \<noteq> 0
                          \<and> four_in_line (Board g) (fst (fst x)) (snd (fst x)) (snd x))"
  define h where "h = (\<lambda>x::(int \<times> int) \<times> (int \<times> int).
                          PlayerColor_of_int (cell (Board g) (fst (fst x)) (snd (fst x)) - 1))"
  define F where "F = (\<lambda>x. if P x then Some (h x) else None)"
  have "(case find P spec_tests of None \<Rightarrow> None | Some x \<Rightarrow> Some (h x)) = first_some F spec_tests"
    unfolding F_def by (rule find_first_some)
  also have "\<dots> = first_some (\<lambda>rc. first_some (\<lambda>d. F (rc, d)) directions) scan_order"
    by (simp add: spec_tests_def first_some_concat first_some_map)
  also have "\<dots> = first_some (\<lambda>rc. check_cell (Board g) (fst rc) (snd rc)) scan_order"
    by (simp add: check_cell_spec F_def P_def h_def cong: if_cong)
  also have "\<dots> = first_some (\<lambda>r. first_some (\<lambda>c. check_cell (Board g) r c) [0, 1, 2, 3, 4, 5, 6])
                       [0, 1, 2, 3, 4, 5]"
    unfolding scan_order_def first_some_concat first_some_map by simp
  also have "\<dots> = CheckWinner g"
    by (simp only: CheckWinner_def scan_rows_first_some scan_cols_first_some)
  finally have e: "(case find P spec_tests of None \<Rightarrow> None | Some x \<Rightarrow> Some (h x)) = CheckWinner g" .
  show ?thesis using e[symmetric] unfolding P_def h_def .
qed

text \<open>
  Claim C5. On a board of six rows of seven cells that hold 0, 1 or 2, \<open>CheckWinner\<close>
  returns what the scan of the specification returns: at the first occupied cell, in
  ascending row order and then ascending column order, from which four cells of its colour
  run on the board to the right, down, down-right or down-left (tried in this order), the
  colour that cell holds (Red for 1, Yellow for 2); and none when there is no such cell.
\<close>

theorem check_winner_scan:
  assumes "board_dims (Board g)" "cells_ok (Board g)"
  shows "CheckWinner g = spec_CheckWinner (Board g)"
proof -
  define P where "P = (\<lambda>x. cell (Board g) (fst (fst x)) (snd (fst x)) \<noteq> 0
                          \<and> four_in_line (Board g) (fst (fst x)) (snd (fst x)) (snd x))"
  have spec: "spec_CheckWinner (Board g) =
      (case find P spec_tests of None \<Rightarrow> None
       | Some x \<Rightarrow> cell_colour (cell (Board g) (fst (fst x)) (snd (fst x))))"
    by (simp add: spec_CheckWinner_def P_def split_def split: option.splits)
  have code: "CheckWinner g =
      (case find P spec_tests of None \<Rightarrow> None
       | Some x \<Rightarrow> Some (PlayerColor_of_int (cell (Board g) (fst (fst x)) (snd (fst x)) - 1)))"
    unfolding P_def by (rule check_winner_first_test)
  show ?thesis
  proof (cases "find P spec_tests")
    case None
    then show ?thesis by (simp add: spec code)
  next
    case (Some x)
    then have px: "P x" by (auto simp: find_Some_iff)
    then have nz: "cell (Board g) (fst (fst x)) (snd (fst x)) \<noteq> 0"
      and ib: "in_bounds (fst (fst x)) (snd (fst x))"
      by (auto simp: P_def dest: four_in_line_in_bounds)
    from cells_ok_cell[OF assms ib] nz
    have "cell (Board g) (fst (fst x)) (snd (fst x)) = 1 \<or> cell (Board g) (fst (fst x)) (snd (fst x)) = 2"
      by simp
    then have "Some (PlayerColor_of_int (cell (Board g) (fst (fst x)) (snd (fst x)) - 1))
        = cell_colour (cell (Board g) (fst (fst x)) (snd (fst x)))"
      by (rule cell_colour_conv)
    with Some show ?thesis by (simp add: spec code)
  qed
qed

section \<open>The bot strategy\<close>

lemma valid_move_returns:
  "IsValidMove g col \<Longrightarrow> snd (Game_MakeMove ts g col color) \<noteq> None"
  by (auto simp: Game_MakeMove_def IsValidMove_def Let_def split: if_splits)

lemma findWinningMove_loop_find:
  "findWinningMove_loop ts g color cols =
     (case find (wins_by ts g color) cols of Some col \<Rightarrow> col | None \<Rightarrow> -1)"
proof (induction cols)
  case Nil
  show ?case by simp
next
  case (Cons col cols)
  show ?case
  proof (cases "IsValidMove g col")
    case False
    with Cons show ?thesis by (simp add: wins_by_def)
  next
    case True
    obtain tg mv where mm: "Game_MakeMove ts g col color = (tg, mv)" by (cases "Game_MakeMove ts g col color")
    with valid_move_returns[OF True, of ts color] have "mv \<noteq> None" by simp
    then obtain y where "mv = Some y" by blast
    with Cons True mm show ?thesis by (simp add: wins_by_def)
  qed
qed

lemma find_in_cols: "find P [0, 1, 2, 3, 4, 5, 6] = Some (c::int) \<Longrightarrow> c \<noteq> -1"
  by (auto split: if_splits)

lemma findWinningMove_find:
  "findWinningMove ts g color =
     (case find (wins_by ts g color) [0, 1, 2, 3, 4, 5, 6] of Some col \<Rightarrow> col | None \<Rightarrow> -1)"
  by (simp only: findWinningMove_def findWinningMove_loop_find)

lemma first_valid_find: "first_valid g cols = find (IsValidMove g) cols"
  by (induction cols) simp_all

lemma no_center_no_valid:
  "find (IsValidMove g) [3, 2, 4, 1, 5, 0, 6] = None \<Longrightarrow> filter (IsValidMove g) [0, 1, 2, 3, 4, 5, 6] = []"
  by (auto split: if_splits)

lemma opponent_of_eq: "(if botColor = PlayerRed then PlayerYellow else PlayerRed) = opponent_of botColor"
  by (cases botColor) (simp_all add: opponent_of_def)

lemma GetBestMove_spec:
  "GetBestMove ts rnd g botColor = (case spec_strategy ts g botColor of Some col \<Rightarrow> col | None \<Rightarrow> -1)"
proof (cases "find (wins_by ts g botColor) [0, 1, 2, 3, 4, 5, 6]")
  case (Some c)
  with find_in_cols[OF Some] show ?thesis
    by (simp add: GetBestMove_def Let_def findWinningMove_find spec_strategy_def)
next
  case None
  note n1 = None
  show ?thesis
  proof (cases "find (wins_by ts g (opponent_of botColor)) [0, 1, 2, 3, 4, 5, 6]")
    case (Some c)
    with find_in_cols[OF Some] n1 show ?thesis
      by (simp add: GetBestMove_def Let_def findWinningMove_find spec_strategy_def opponent_of_eq)
  next
    case None
    show ?thesis
    proof (cases "find (IsValidMove g) [3, 2, 4, 1, 5, 0, 6]")
      case (Some c)
      with n1 None show ?thesis
        by (simp add: GetBestMove_def Let_def findWinningMove_find spec_strategy_def opponent_of_eq
            first_valid_find centerColumns_def)
    next
      case nv: None
      from no_center_no_valid[OF nv] n1 None nv show ?thesis
        by (simp add: GetBestMove_def Let_def findWinningMove_find spec_strategy_def opponent_of_eq
            first_valid_find centerColumns_def)
    qed
  qed
qed

lemma find_least4:
  assumes "P (4::int)" "\<not> P 0" "\<not> P 1" "\<not> P 2" "\<not> P 3"
  shows "find P [0, 1, 2, 3, 4, 5, 6] = Some 4"
  using assms by simp

text \<open>
  Claim C7, as amended. \<open>GetBestMove\<close> returns the lowest column \<open>0..6\<close> that wins for the
  bot's colour; else the lowest column that wins for the opponent's colour; else the first
  valid column of \<open>[3,2,4,1,5,0,6]\<close>; and \<open>-1\<close> when no column is valid. When the bot has no
  winning column, the opponent wins by column 4 and by no column below 4, it returns 4.
\<close>

theorem bot_strategy:
  "GetBestMove ts rnd g botColor
      = (case spec_strategy ts g botColor of Some col \<Rightarrow> col | None \<Rightarrow> -1)
   \<and> (find (wins_by ts g botColor) [0, 1, 2, 3, 4, 5, 6] = None
        \<and> wins_by ts g (opponent_of botColor) 4
        \<and> \<not> wins_by ts g (opponent_of botColor) 0 \<and> \<not> wins_by ts g (opponent_of botColor) 1
        \<and> \<not> wins_by ts g (opponent_of botColor) 2 \<and> \<not> wins_by ts g (opponent_of botColor) 3
      \<longrightarrow> GetBestMove ts rnd g botColor = 4)"
proof -
  have "GetBestMove ts rnd g botColor = 4"
    if "find (wins_by ts g botColor) [0, 1, 2, 3, 4, 5, 6] = None"
      "wins_by ts g (opponent_of botColor) 4"
      "\<not> wins_by ts g (opponent_of botColor) 0" "\<not> wins_by ts g (opponent_of botColor) 1"
      "\<not> wins_by ts g (opponent_of botColor) 2" "\<not> wins_by ts g (opponent_of botColor) 3"
  proof -
    have "find (wins_by ts g (opponent_of botColor)) [0, 1, 2, 3, 4, 5, 6] = Some 4"
      using that(2-6) by (rule find_least4)
    with that(1) show ?thesis by (simp add: GetBestMove_spec spec_strategy_def)
  qed
  then show ?thesis using GetBestMove_spec by blast
qed

section \<open>The bot strategy leaves its argument alone\<close>

lemma findWinningMove_at_loop_frame:
  assumes "objs s p = Some g" "p < fresh s"
  shows "\<exists>s'. findWinningMove_at_loop ts s p color cols = Some (s', findWinningMove_loop ts g color cols)
            \<and> objs s' p = Some g \<and> fresh s \<le> fresh s'
            \<and> (\<forall>a. a < fresh s \<longrightarrow> objs s' a = objs s a)"
  using assms
proof (induction cols arbitrary: s)
  case Nil
  then show ?case by simp
next
  case (Cons col cols)
  show ?case
  proof (cases "IsValidMove g col")
    case False
    with Cons.IH[OF Cons.prems] Cons.prems show ?thesis by simp
  next
    case True
    obtain g' mv where mm: "Game_MakeMove ts g col color = (g', mv)"
      by (cases "Game_MakeMove ts g col color")
    define q where "q = fresh s"
    define s2 where "s2 = s\<lparr>objs := (objs s)(q \<mapsto> g'), fresh := Suc q\<rparr>"
    have pq: "p \<noteq> q" using Cons.prems(2) by (simp add: q_def)
    have al: "alloc s g = (s\<lparr>objs := (objs s)(q \<mapsto> g), fresh := Suc q\<rparr>, q)"
      by (simp add: alloc_def q_def)
    have mk: "MakeMove_at ts (s\<lparr>objs := (objs s)(q \<mapsto> g), fresh := Suc q\<rparr>) q col color = Some (s2, mv)"
      by (simp add: MakeMove_at_def mm s2_def)
    have s2p: "objs s2 p = Some g" "p < fresh s2" "objs s2 q = Some g'"
      using Cons.prems pq by (simp_all add: s2_def q_def)
    have frame: "\<And>a. a < fresh s \<Longrightarrow> objs s2 a = objs s a"
      by (simp add: s2_def q_def)
    have fr: "fresh s \<le> fresh s2" by (simp add: s2_def q_def)
    from Cons.IH[OF s2p(1,2)] obtain s' where
      ih: "findWinningMove_at_loop ts s2 p color cols = Some (s', findWinningMove_loop ts g color cols)"
        "objs s' p = Some g" "fresh s2 \<le> fresh s'" "\<forall>a. a < fresh s2 \<longrightarrow> objs s' a = objs s2 a"
      by blast
    have step: "findWinningMove_at_loop ts s p color (col # cols) =
        (if mv = None then findWinningMove_at_loop ts s2 p color cols
         else if CheckWinner g' = Some color then Some (s2, col)
         else findWinningMove_at_loop ts s2 p color cols)"
      using Cons.prems(1) True al mk s2p(3) by simp
    have pure: "findWinningMove_loop ts g color (col # cols) =
        (if mv = None then findWinningMove_loop ts g color cols
         else if CheckWinner g' = Some color then col
         else findWinningMove_loop ts g color cols)"
      using True mm by simp
    show ?thesis
    proof (cases "mv \<noteq> None \<and> CheckWinner g' = Some color")
      case True
      with step pure s2p(1) fr frame show ?thesis by auto
    next
      case False
      with step pure have
        "findWinningMove_at_loop ts s p color (col # cols) = findWinningMove_at_loop ts s2 p color cols"
        "findWinningMove_loop ts g color (col # cols) = findWinningMove_loop ts g color cols"
        by auto
      moreover have "fresh s \<le> fresh s'" using fr ih(3) by simp
      moreover have "\<forall>a. a < fresh s \<longrightarrow> objs s' a = objs s a"
        using ih(4) frame fr by auto
      ultimately show ?thesis using ih(1,2) by simp
    qed
  qed
qed

text \<open>
  Claim C10. Called on the address of a game in the store, \<open>GetBestMove\<close> returns (it does
  not panic), the game at that address is afterwards the game that was there before, with
  every field, and so is every object the store held before: the simulated moves are made on
  fresh copies. The column returned is the one computed on the game's value.
\<close>

theorem bot_leaves_game:
  assumes "objs s game = Some g" "game < fresh s"
  shows "\<exists>s'. GetBestMove_at ts rnd s game botColor = Some (s', GetBestMove ts rnd g botColor)
            \<and> objs s' game = Some g
            \<and> (\<forall>a. a < fresh s \<longrightarrow> objs s' a = objs s a)"
proof -
  from findWinningMove_at_loop_frame[OF assms, of ts botColor "[0, 1, 2, 3, 4, 5, 6]"]
  obtain s1 where s1: "findWinningMove_at ts s game botColor = Some (s1, findWinningMove ts g botColor)"
      "objs s1 game = Some g" "fresh s \<le> fresh s1" "\<forall>a. a < fresh s \<longrightarrow> objs s1 a = objs s a"
    unfolding findWinningMove_at_def findWinningMove_def by blast
  define opp where "opp = (if botColor = PlayerRed then PlayerYellow else PlayerRed)"
  have lt1: "game < fresh s1" using assms(2) s1(3) by simp
  from findWinningMove_at_loop_frame[OF s1(2) lt1, of ts opp "[0, 1, 2, 3, 4, 5, 6]"]
  obtain s2 where s2: "findWinningMove_at ts s1 game opp = Some (s2, findWinningMove ts g opp)"
      "objs s2 game = Some g" "fresh s1 \<le> fresh s2" "\<forall>a. a < fresh s1 \<longrightarrow> objs s2 a = objs s1 a"
    unfolding findWinningMove_at_def findWinningMove_def by blast
  have frame2: "\<forall>a. a < fresh s \<longrightarrow> objs s2 a = objs s a"
    using s1(3,4) s2(4) by auto
  show ?thesis
  proof (cases "findWinningMove ts g botColor \<noteq> -1")
    case True
    with s1 show ?thesis by (simp add: GetBestMove_at_def GetBestMove_def Let_def)
  next
    case False
    note nb = False
    show ?thesis
    proof (cases "findWinningMove ts g opp \<noteq> -1")
      case True
      with nb s1(1) s2(1,2) frame2 show ?thesis
        by (simp add: GetBestMove_at_def GetBestMove_def Let_def opp_def[symmetric])
    next
      case False
      with nb s1(1) s2(1,2) frame2 show ?thesis
        by (simp add: GetBestMove_at_def GetBestMove_def Let_def opp_def[symmetric]
            split: option.splits)
    qed
  qed
qed

section \<open>Moves through the registry\<close>


lemma find_player_Some:
  "find_player g playerID = Some p \<Longrightarrow> PID p = playerID \<and> (p = fst (Players g) \<or> p = snd (Players g))"
  by (auto simp: find_player_def players_list_def split: if_splits)

lemma make_move_failure:
  "snd (Manager_MakeMove ts now m gameID playerID column) = Inl e
     \<Longrightarrow> fst (Manager_MakeMove ts now m gameID playerID column) = m"
proof -
  assume a: "snd (Manager_MakeMove ts now m gameID playerID column) = Inl e"
  show ?thesis
  proof (cases "games m gameID")
    case None
    then show ?thesis by (simp add: Manager_MakeMove_def)
  next
    case (Some g)
    show ?thesis
    proof (cases "State g = GameStatePlaying \<and> (\<exists>p. find_player g playerID = Some p \<and> Color p = CurrentTurn g)")
      case False
      with Some show ?thesis by (auto simp: Manager_MakeMove_def split: option.splits)
    next
      case True
      then obtain p where p: "State g = GameStatePlaying" "find_player g playerID = Some p"
        "Color p = CurrentTurn g" by blast
      have tg: "CurrentTurn g = Color p" using p(3) by simp
      obtain g1 res where mm: "Game_MakeMove ts g column (Color p) = (g1, res)"
        by (cases "Game_MakeMove ts g column (Color p)")
      show ?thesis
      proof (cases res)
        case None
        with mm Game_MakeMove_None[of ts g column "Color p"] have "g1 = g" by simp
        with Some p(1,2) tg mm None show ?thesis
          by (simp add: Manager_MakeMove_def manager_games_triv)
      next
        case (Some mv)
        with a \<open>games m gameID = Some g\<close> p(1,2) tg mm show ?thesis
          by (simp add: Manager_MakeMove_def Let_def)
      qed
    qed
  qed
qed


lemma CheckWinner_Board: "Board g' = Board g \<Longrightarrow> CheckWinner g' = CheckWinner g"
  by (simp add: CheckWinner_def)

lemma IsBoardFull_Board: "Board g' = Board g \<Longrightarrow> IsBoardFull g' = IsBoardFull g"
  by (simp add: IsBoardFull_def)

lemma Game_MakeMove_fields:
  "Game_MakeMove ts g column color = (g1, res) \<Longrightarrow>
     State g1 = State g \<and> Winner g1 = Winner g \<and> FinishedAt g1 = FinishedAt g
     \<and> CurrentTurn g1 = CurrentTurn g \<and> Players g1 = Players g \<and> ID g1 = ID g"
  by (auto simp: Game_MakeMove_def Let_def split: if_splits)

lemma Game_MakeMove_color:
  "Game_MakeMove ts g column color = (g1, Some mv) \<Longrightarrow> MoveColor mv = color"
  by (auto simp: Game_MakeMove_def Let_def split: if_splits)

lemma opponent_of_neq: "opponent_of c \<noteq> c"
  by (cases c) (simp_all add: opponent_of_def)

text \<open>The shape of a successful call.\<close>

lemma make_move_success:
  assumes "games m gameID = Some g"
      and "Manager_MakeMove ts now m gameID playerID column = (m', Inr mv)"
  shows "State g = GameStatePlaying \<and> MoveColor mv = CurrentTurn g
       \<and> m' = m\<lparr>games := (games m)(gameID \<mapsto>
                   after_move now mv (CurrentTurn g) (fst (Game_MakeMove ts g column (CurrentTurn g))))\<rparr>"
proof -
  from assms have playing: "State g = GameStatePlaying"
    by (auto simp: Manager_MakeMove_def split: if_splits)
  from assms playing obtain p where p: "find_player g playerID = Some p"
    by (auto simp: Manager_MakeMove_def split: option.splits)
  from assms playing p have turn: "Color p = CurrentTurn g"
    by (auto simp: Manager_MakeMove_def split: if_splits)
  have tg: "CurrentTurn g = Color p" using turn by simp
  obtain g1 res where mm: "Game_MakeMove ts g column (Color p) = (g1, res)"
    by (cases "Game_MakeMove ts g column (Color p)")
  from assms playing p tg mm obtain mv0 where res: "res = Some mv0"
    by (cases res) (auto simp: Manager_MakeMove_def)
  note f = Game_MakeMove_fields[OF mm]
  define g2 where "g2 = g1\<lparr>LastMove := Some (mv0\<lparr>PlayerID := playerID\<rparr>)\<rparr>"
  have g2f: "CheckWinner g2 = CheckWinner g1" "IsBoardFull g2 = IsBoardFull g1"
    "CurrentTurn g2 = Color p"
    using f tg by (simp_all add: g2_def CheckWinner_def IsBoardFull_def)
  have call: "Manager_MakeMove ts now m gameID playerID column =
      (m\<lparr>games := (games m)(gameID \<mapsto>
           (case CheckWinner g2 of
              Some winner \<Rightarrow> g2\<lparr>Winner := Some winner, State := GameStateFinished,
                                 FinishedAt := Some now\<rparr>
            | None \<Rightarrow>
                if IsBoardFull g2
                then g2\<lparr>State := GameStateFinished, FinishedAt := Some now\<rparr>
                else if CurrentTurn g2 = PlayerRed
                then g2\<lparr>CurrentTurn := PlayerYellow, CurrentTurnNumber := 2\<rparr>
                else g2\<lparr>CurrentTurn := PlayerRed, CurrentTurnNumber := 1\<rparr>))\<rparr>,
       Inr (mv0\<lparr>PlayerID := playerID\<rparr>))"
    unfolding g2_def using assms(1) playing p mm res
    by (simp add: Manager_MakeMove_def Let_def tg)
  with assms(2) have mv: "mv = mv0\<lparr>PlayerID := playerID\<rparr>" by simp
  have shape: "(case CheckWinner g2 of
              Some winner \<Rightarrow> g2\<lparr>Winner := Some winner, State := GameStateFinished,
                                 FinishedAt := Some now\<rparr>
            | None \<Rightarrow>
                if IsBoardFull g2
                then g2\<lparr>State := GameStateFinished, FinishedAt := Some now\<rparr>
                else if CurrentTurn g2 = PlayerRed
                then g2\<lparr>CurrentTurn := PlayerYellow, CurrentTurnNumber := 2\<rparr>
                else g2\<lparr>CurrentTurn := PlayerRed, CurrentTurnNumber := 1\<rparr>)
            = after_move now mv (Color p) g1"
    unfolding g2f after_move_def
    by (cases "Color p") (simp_all add: g2_def mv opponent_of_def split: option.splits)
  have g1: "g1 = fst (Game_MakeMove ts g column (CurrentTurn g))"
    using mm tg by simp
  have "MoveColor mv = CurrentTurn g"
    using Game_MakeMove_color[of ts g column "Color p" g1 mv0] mm res mv tg by simp
  moreover have "m' = m\<lparr>games := (games m)(gameID \<mapsto> after_move now mv (Color p) g1)\<rparr>"
    using call assms(2) shape by simp
  ultimately show ?thesis using playing g1 tg by simp
qed

lemma after_move_fields:
  "Board (after_move now mv turn g1) = Board g1"
  "Players (after_move now mv turn g1) = Players g1"
  "CheckWinner (after_move now mv turn g1) = CheckWinner g1"
  "IsBoardFull (after_move now mv turn g1) = IsBoardFull g1"
  by (simp_all add: after_move_def CheckWinner_def IsBoardFull_def split: option.splits)

text \<open>
  Claim C4. After a successful \<open>Manager.MakeMove\<close> on a Playing session of a manager
  in which no Playing session has a winner recorded (\<open>manager_inv\<close>, kept by every
  operation, see \<open>manager_inv_run_ops\<close>), the session holds the board with the move placed and: if that board has
  a winner, the session is Finished with that winner and the finish time, and the turn colour
  is as before; otherwise, if the board is full, it is Finished with no winner; otherwise it
  is Playing, the turn colour is the other colour, and any next move that succeeds on the
  session is made by a colour different from the mover's.
\<close>

theorem make_move_outcome:
  assumes "manager_inv m" "games m gameID = Some g" "State g = GameStatePlaying"
      and "Manager_MakeMove ts now m gameID playerID column = (m', Inr mv)"
  shows "\<exists>g'. games m' gameID = Some g'
          \<and> Board g' = Board (fst (Game_MakeMove ts g column (CurrentTurn g)))
          \<and> MoveColor mv = CurrentTurn g
          \<and> (\<forall>w. CheckWinner g' = Some w \<longrightarrow>
                State g' = GameStateFinished \<and> Winner g' = Some w \<and> FinishedAt g' = Some now
                \<and> CurrentTurn g' = CurrentTurn g)
          \<and> (CheckWinner g' = None \<and> IsBoardFull g' \<longrightarrow>
                State g' = GameStateFinished \<and> Winner g' = None \<and> FinishedAt g' = Some now)
          \<and> (CheckWinner g' = None \<and> \<not> IsBoardFull g' \<longrightarrow>
                State g' = GameStatePlaying \<and> CurrentTurn g' = opponent_of (MoveColor mv)
                \<and> CurrentTurn g' \<noteq> MoveColor mv
                \<and> (\<forall>ts2 now2 playerID2 column2 mv2.
                      snd (Manager_MakeMove ts2 now2 m' gameID playerID2 column2) = Inr mv2
                      \<longrightarrow> MoveColor mv2 \<noteq> MoveColor mv))"
proof -
  have wn: "Winner g = None" using assms(1,2,3) by (auto simp: manager_inv_def)
  define g1 where "g1 = fst (Game_MakeMove ts g column (CurrentTurn g))"
  define g' where "g' = after_move now mv (CurrentTurn g) g1"
  from make_move_success[OF assms(2,4)] have
    col: "MoveColor mv = CurrentTurn g" and m': "m' = m\<lparr>games := (games m)(gameID \<mapsto> g')\<rparr>"
    by (simp_all add: g'_def g1_def)
  have f: "State g1 = State g" "Winner g1 = Winner g" "CurrentTurn g1 = CurrentTurn g"
    using Game_MakeMove_fields[of ts g column "CurrentTurn g" g1 "snd (Game_MakeMove ts g column (CurrentTurn g))"]
    by (simp_all add: g1_def)
  have cw: "CheckWinner g' = CheckWinner g1" and bf: "IsBoardFull g' = IsBoardFull g1"
    by (simp_all add: g'_def after_move_fields)
  have look: "games m' gameID = Some g'" using m' by simp
  have board: "Board g' = Board (fst (Game_MakeMove ts g column (CurrentTurn g)))"
    by (simp add: g'_def after_move_fields g1_def)
  have win: "State g' = GameStateFinished \<and> Winner g' = Some w \<and> FinishedAt g' = Some now
                \<and> CurrentTurn g' = CurrentTurn g" if "CheckWinner g' = Some w" for w
  proof -
    from that cw have "CheckWinner g1 = Some w" by simp
    then show ?thesis using f by (simp add: g'_def after_move_def)
  qed
  have draw: "State g' = GameStateFinished \<and> Winner g' = None \<and> FinishedAt g' = Some now"
    if "CheckWinner g' = None \<and> IsBoardFull g'"
  proof -
    from that cw bf have "CheckWinner g1 = None" "IsBoardFull g1" by simp_all
    then show ?thesis using f wn by (simp add: g'_def after_move_def)
  qed
  have cont: "State g' = GameStatePlaying \<and> CurrentTurn g' = opponent_of (MoveColor mv)
                \<and> CurrentTurn g' \<noteq> MoveColor mv"
    if "CheckWinner g' = None \<and> \<not> IsBoardFull g'"
  proof -
    from that cw bf have "CheckWinner g1 = None" "\<not> IsBoardFull g1" by simp_all
    then show ?thesis using f assms(3) col opponent_of_neq[of "CurrentTurn g"]
      by (simp add: g'_def after_move_def)
  qed
  have nxt: "\<forall>ts2 now2 playerID2 column2 mv2.
                      snd (Manager_MakeMove ts2 now2 m' gameID playerID2 column2) = Inr mv2
                      \<longrightarrow> MoveColor mv2 \<noteq> MoveColor mv"
    if n: "CheckWinner g' = None \<and> \<not> IsBoardFull g'"
  proof (intro allI impI)
    fix ts2 now2 playerID2 column2 mv2
    assume r: "snd (Manager_MakeMove ts2 now2 m' gameID playerID2 column2) = Inr mv2"
    obtain m'' where c2: "Manager_MakeMove ts2 now2 m' gameID playerID2 column2 = (m'', Inr mv2)"
      using r by (cases "Manager_MakeMove ts2 now2 m' gameID playerID2 column2") simp
    from make_move_success[OF look c2] have "MoveColor mv2 = CurrentTurn g'" by simp
    with cont[OF n] show "MoveColor mv2 \<noteq> MoveColor mv" by (simp add: opponent_of_neq)
  qed
  show ?thesis
  proof (intro exI[of _ g'] conjI)
    show "games m' gameID = Some g'" by (rule look)
    show "Board g' = Board (fst (Game_MakeMove ts g column (CurrentTurn g)))" by (rule board)
    show "MoveColor mv = CurrentTurn g" by (rule col)
    show "\<forall>w. CheckWinner g' = Some w \<longrightarrow>
                State g' = GameStateFinished \<and> Winner g' = Some w \<and> FinishedAt g' = Some now
                \<and> CurrentTurn g' = CurrentTurn g"
      using win by blast
    show "CheckWinner g' = None \<and> IsBoardFull g' \<longrightarrow>
                State g' = GameStateFinished \<and> Winner g' = None \<and> FinishedAt g' = Some now"
      using draw by blast
    show "CheckWinner g' = None \<and> \<not> IsBoardFull g' \<longrightarrow>
                State g' = GameStatePlaying \<and> CurrentTurn g' = opponent_of (MoveColor mv)
                \<and> CurrentTurn g' \<noteq> MoveColor mv
                \<and> (\<forall>ts2 now2 playerID2 column2 mv2.
                      snd (Manager_MakeMove ts2 now2 m' gameID playerID2 column2) = Inr mv2
                      \<longrightarrow> MoveColor mv2 \<noteq> MoveColor mv)"
      using cont nxt by blast
  qed
qed

section \<open>The disconnect sweep\<close>

lemma cleanup_players_Board:
  "Board (fst (cleanup_players now now2 gameID game ps)) = Board game"
  by (induction ps) (simp_all add: Let_def split: option.splits)

lemma cleanup_game_Board: "Board (fst (cleanup_game now now2 gameID game)) = Board game"
  by (simp add: cleanup_game_def cleanup_players_Board)

lemma cleanup_game_not_playing:
  "State game \<noteq> GameStatePlaying \<Longrightarrow> cleanup_game now now2 gameID game = (game, None)"
  by (simp add: cleanup_game_def)

text \<open>What the body of the loop does to one session.\<close>

lemma cleanup_game_both_gone:
  assumes "State g = GameStatePlaying"
      and "\<not> Connected (fst (Players g))" "\<not> Connected (snd (Players g))"
      and "now - LastSeen (fst (Players g)) > gracePeriod
           \<or> now - LastSeen (snd (Players g)) > gracePeriod"
  shows "fst (cleanup_game now now2 gameID g) = g\<lparr>State := GameStateFinished, FinishedAt := Some now2\<rparr>"
  using assms by (auto simp: cleanup_game_def players_list_def Let_def)

lemma cleanup_game_forfeit:
  assumes "State g = GameStatePlaying"
      and "(\<not> Connected (fst (Players g)) \<and> now - LastSeen (fst (Players g)) > gracePeriod
              \<and> Connected (snd (Players g)) \<and> w = Color (snd (Players g)))
         \<or> (\<not> Connected (snd (Players g)) \<and> now - LastSeen (snd (Players g)) > gracePeriod
              \<and> Connected (fst (Players g)) \<and> w = Color (fst (Players g)))"
  shows "fst (cleanup_game now now2 gameID g)
           = g\<lparr>State := GameStateFinished, FinishedAt := Some now2, Winner := Some w\<rparr>"
  using assms by (auto simp: cleanup_game_def players_list_def Let_def)

lemma cleanup_players_payload:
  "snd (cleanup_players now now2 gameID game ps) = Some msg \<Longrightarrow> PayloadWinner (Payload msg) = None"
  by (induction ps) (auto simp: Let_def split: if_splits)

lemma cleanup_game_payload:
  "snd (cleanup_game now now2 gameID game) = Some msg \<Longrightarrow> PayloadWinner (Payload msg) = None"
  by (auto simp: cleanup_game_def cleanup_players_payload split: if_splits)

text \<open>Under the write lock \<open>BroadcastToGame\<close> waits; so the sweep stops at the first game it ends.\<close>

lemma BroadcastToGame_waits:
  "mutex R = WriteLocked \<Longrightarrow> BroadcastToGame R gameID message = None"
  by (simp add: BroadcastToGame_def RLock_def)

lemma cleanup_loop_step:
  assumes "games (maps R) gameID = Some game"
      and "cleanup_game now (clock gameID) gameID game = (game', msg)"
      and "mutex R = WriteLocked"
  shows "cleanup_loop now clock (gameID # rest) R sent =
           (case msg of
              None \<Rightarrow> cleanup_loop now clock rest
                        (R\<lparr>maps := (maps R)\<lparr>games := (games (maps R))(gameID \<mapsto> game')\<rparr>\<rparr>) sent
            | Some message \<Rightarrow>
                (R\<lparr>maps := (maps R)\<lparr>games := (games (maps R))(gameID \<mapsto> game')\<rparr>\<rparr>,
                 SweepBlocked gameID message sent))"
  using assms by (simp add: BroadcastToGame_waits split: option.splits)

lemma cleanup_loop_locked:
  "mutex R = WriteLocked \<Longrightarrow>
     mutex (fst (cleanup_loop now clock order R sent)) = WriteLocked
     \<and> deliveries (snd (cleanup_loop now clock order R sent)) = sent
     \<and> (\<forall>msg. blocked_message (snd (cleanup_loop now clock order R sent)) = Some msg
               \<longrightarrow> PayloadWinner (Payload msg) = None)"
proof (induction order arbitrary: R)
  case Nil
  then show ?case by simp
next
  case (Cons gameID rest)
  show ?case
  proof (cases "games (maps R) gameID")
    case None
    with Cons show ?thesis by simp
  next
    case (Some game)
    obtain game' msg where cg: "cleanup_game now (clock gameID) gameID game = (game', msg)"
      by (cases "cleanup_game now (clock gameID) gameID game")
    define R1 where "R1 = R\<lparr>maps := (maps R)\<lparr>games := (games (maps R))(gameID \<mapsto> game')\<rparr>\<rparr>"
    have m1: "mutex R1 = WriteLocked" using Cons.prems by (simp add: R1_def)
    note step = cleanup_loop_step[where clock = clock and gameID = gameID and rest = rest and sent = sent,
        OF Some cg Cons.prems, folded R1_def]
    show ?thesis
    proof (cases msg)
      case None
      with step Cons.IH[OF m1] show ?thesis by simp
    next
      case (Some message)
      with cg cleanup_game_payload[of now "clock gameID" gameID game message]
      have "PayloadWinner (Payload message) = None" by simp
      with step Some m1 show ?thesis by simp
    qed
  qed
qed

lemma sweep_delivers_nothing:
  "deliveries (snd (cleanupDisconnectedPlayers now clock order R)) = []"
proof (cases "Lock (mutex R)")
  case None
  then show ?thesis by (simp add: cleanupDisconnectedPlayers_def)
next
  case (Some mu)
  then have mu: "mu = WriteLocked" by (auto simp: Lock_def split: RWMutex.splits)
  have "mutex (R\<lparr>mutex := mu\<rparr>) = WriteLocked" by (simp add: mu)
  from cleanup_loop_locked[OF this, of now clock order "[]"] Some show ?thesis
    by (auto simp: cleanupDisconnectedPlayers_def split: prod.splits SweepOutcome.splits)
qed

lemma sweep_payload_winner_empty:
  assumes "blocked_message (snd (cleanupDisconnectedPlayers now clock order R)) = Some msg"
  shows "PayloadWinner (Payload msg) = None"
proof (cases "Lock (mutex R)")
  case None
  with assms show ?thesis by (simp add: cleanupDisconnectedPlayers_def)
next
  case (Some mu)
  then have mu: "mu = WriteLocked" by (auto simp: Lock_def split: RWMutex.splits)
  have "mutex (R\<lparr>mutex := mu\<rparr>) = WriteLocked" by (simp add: mu)
  from cleanup_loop_locked[OF this, of now clock order "[]"] Some assms show ?thesis
    by (auto simp: cleanupDisconnectedPlayers_def split: prod.splits SweepOutcome.splits)
qed

text \<open>
  A session that the sweep ends as the first of its run: the run stops there, inside
  \<open>BroadcastToGame\<close>, with the write lock still held.
\<close>

lemma sweep_blocks_at_first:
  assumes "mutex R = Unlocked" "games (maps R) gameID = Some g"
      and "cleanup_game now (clock gameID) gameID g = (g', Some message)"
  shows "cleanupDisconnectedPlayers now clock (gameID # rest) R =
           (R\<lparr>mutex := WriteLocked,
              maps := (maps R)\<lparr>games := (games (maps R))(gameID \<mapsto> g')\<rparr>\<rparr>,
            SweepBlocked gameID message [])"
proof -
  have l: "Lock (mutex R) = Some WriteLocked" using assms(1) by (simp add: Lock_def)
  have g: "games (maps (R\<lparr>mutex := WriteLocked\<rparr>)) gameID = Some g" using assms(2) by simp
  have w: "mutex (R\<lparr>mutex := WriteLocked\<rparr>) = WriteLocked" by simp
  from cleanup_loop_step[where clock = clock and gameID = gameID and rest = rest and sent = "[]",
        OF g assms(3) w] l show ?thesis
    by (simp add: cleanupDisconnectedPlayers_def)
qed

section \<open>Sequences of operations\<close>

lemma session_kept_refl: "session_kept g g"
  by (simp add: session_kept_def)

lemma session_kept_trans: "session_kept g g' \<Longrightarrow> session_kept g' g'' \<Longrightarrow> session_kept g g''"
  by (auto simp: session_kept_def)

lemma Game_MakeMove_cells:
  assumes "cell (Board g) r c \<noteq> 0"
  shows "cell (Board (fst (Game_MakeMove ts g column color))) r c = cell (Board g) r c"
proof (cases "IsValidMove g column")
  case False
  then show ?thesis by (simp add: Game_MakeMove_def)
next
  case True
  then have top: "cell (Board g) 0 column = 0" by (auto simp: IsValidMove_def split: if_splits)
  define row where "row = find_row (Board g) column [5, 4, 3, 2, 1, 0]"
  have e: "cell (Board g) row column = 0" unfolding row_def using top by (rule find_row_empty)
  have "Board (fst (Game_MakeMove ts g column color)) = Board g
      \<or> Board (fst (Game_MakeMove ts g column color))
           = set_cell (Board g) row column (int_of_PlayerColor color + 1)"
    unfolding Game_MakeMove_def Let_def row_def[symmetric] by simp
  then show ?thesis
  proof
    assume "Board (fst (Game_MakeMove ts g column color)) = Board g"
    then show ?thesis by simp
  next
    assume b: "Board (fst (Game_MakeMove ts g column color))
           = set_cell (Board g) row column (int_of_PlayerColor color + 1)"
    have "\<not> (nat r = nat row \<and> nat c = nat column)"
    proof
      assume "nat r = nat row \<and> nat c = nat column"
      then have "cell (Board g) r c = cell (Board g) row column" by (simp add: cell_def)
      with e assms show False by simp
    qed
    then show ?thesis unfolding b cell_set_cell by auto
  qed
qed

lemma make_move_kept:
  assumes "games m k = Some g"
  shows "\<exists>g'. games (fst (Manager_MakeMove ts now m gameID playerID column)) k = Some g'
              \<and> session_kept g g'"
proof (cases "snd (Manager_MakeMove ts now m gameID playerID column)")
  case (Inl e)
  then have "fst (Manager_MakeMove ts now m gameID playerID column) = m" by (rule make_move_failure)
  with assms show ?thesis by (simp add: session_kept_refl)
next
  case (Inr mv)
  show ?thesis
  proof (cases "k = gameID")
    case False
    obtain g0 where g0: "games m gameID = Some g0"
      using Inr by (cases "games m gameID") (simp_all add: Manager_MakeMove_def)
    obtain m' where c: "Manager_MakeMove ts now m gameID playerID column = (m', Inr mv)"
      using Inr by (cases "Manager_MakeMove ts now m gameID playerID column") simp
    from make_move_success[OF g0 c] False assms show ?thesis
      by (simp add: c session_kept_refl)
  next
    case True
    obtain m' where c: "Manager_MakeMove ts now m gameID playerID column = (m', Inr mv)"
      using Inr by (cases "Manager_MakeMove ts now m gameID playerID column") simp
    from assms True have g: "games m gameID = Some g" by simp
    note s = make_move_success[OF g c]
    define g' where "g' = after_move now mv (CurrentTurn g) (fst (Game_MakeMove ts g column (CurrentTurn g)))"
    have "games m' k = Some g'" using s True by (simp add: g'_def)
    moreover have "session_kept g g'"
      using s by (simp add: session_kept_def g'_def after_move_fields Game_MakeMove_cells)
    ultimately show ?thesis by (simp add: c)
  qed
qed

lemma cleanup_game_kept: "session_kept g (fst (cleanup_game now now2 gameID g))"
  by (cases "State g = GameStatePlaying")
     (simp_all add: session_kept_def cleanup_game_Board cleanup_game_not_playing)

lemma MakeMove_call_kept:
  assumes "games (maps R) k = Some g"
  shows "\<exists>g'. games (maps (fst (MakeMove_call ts now R gameID playerID column))) k = Some g'
              \<and> session_kept g g'"
proof (cases "Lock (mutex R)")
  case None
  with assms show ?thesis by (simp add: MakeMove_call_def session_kept_refl)
next
  case (Some mu)
  with make_move_kept[OF assms, of ts now gameID playerID column] show ?thesis
    by (simp add: MakeMove_call_def split_def Let_def)
qed

lemma cleanup_loop_kept:
  "games (maps R) k = Some g \<Longrightarrow>
     \<exists>g'. games (maps (fst (cleanup_loop now clock order R sent))) k = Some g' \<and> session_kept g g'"
proof (induction order arbitrary: R g sent)
  case Nil
  then show ?case by (simp add: session_kept_refl)
next
  case (Cons gameID rest)
  show ?case
  proof (cases "games (maps R) gameID")
    case None
    with Cons.IH[OF Cons.prems] show ?thesis by simp
  next
    case (Some game)
    obtain game' msg where cg: "cleanup_game now (clock gameID) gameID game = (game', msg)"
      by (cases "cleanup_game now (clock gameID) gameID game")
    define R1 where "R1 = R\<lparr>maps := (maps R)\<lparr>games := (games (maps R))(gameID \<mapsto> game')\<rparr>\<rparr>"
    have "\<exists>g1. games (maps R1) k = Some g1 \<and> session_kept g g1"
    proof (cases "k = gameID")
      case True
      with Some Cons.prems have "game = g" by simp
      with cg cleanup_game_kept[of g now "clock gameID" gameID] True show ?thesis
        by (simp add: R1_def)
    next
      case False
      with Cons.prems show ?thesis by (simp add: R1_def session_kept_refl)
    qed
    then obtain g1 where g1: "games (maps R1) k = Some g1" "session_kept g g1" by blast
    have rest_kept: "\<exists>g'. games (maps (fst (cleanup_loop now clock rest R1 sent'))) k = Some g'
        \<and> session_kept g g'" for sent'
    proof -
      from Cons.IH[OF g1(1), of sent'] obtain g' where
        "games (maps (fst (cleanup_loop now clock rest R1 sent'))) k = Some g'" "session_kept g1 g'"
        by blast
      with g1(2) show ?thesis using session_kept_trans by blast
    qed
    have "fst (cleanup_loop now clock (gameID # rest) R sent) = R1
        \<or> (\<exists>sent'. fst (cleanup_loop now clock (gameID # rest) R sent)
                     = fst (cleanup_loop now clock rest R1 sent'))"
      using Some cg unfolding R1_def by (auto simp: Let_def split: option.splits)
    then show ?thesis
    proof
      assume "fst (cleanup_loop now clock (gameID # rest) R sent) = R1"
      with g1 show ?thesis by auto
    next
      assume "\<exists>sent'. fst (cleanup_loop now clock (gameID # rest) R sent)
                     = fst (cleanup_loop now clock rest R1 sent')"
      then obtain sent' where "fst (cleanup_loop now clock (gameID # rest) R sent)
                     = fst (cleanup_loop now clock rest R1 sent')" by blast
      with rest_kept[of sent'] show ?thesis by simp
    qed
  qed
qed

lemma sweep_maps:
  "maps (fst (cleanupDisconnectedPlayers now clock order R)) = maps R
   \<or> (\<exists>mu. maps (fst (cleanupDisconnectedPlayers now clock order R))
            = maps (fst (cleanup_loop now clock order (R\<lparr>mutex := mu\<rparr>) [])))"
proof (cases "Lock (mutex R)")
  case None
  then show ?thesis by (simp add: cleanupDisconnectedPlayers_def)
next
  case (Some mu)
  then have "maps (fst (cleanupDisconnectedPlayers now clock order R))
      = maps (fst (cleanup_loop now clock order (R\<lparr>mutex := mu\<rparr>) []))"
    by (simp add: cleanupDisconnectedPlayers_def split: prod.splits SweepOutcome.splits)
  then show ?thesis by blast
qed

lemma sweep_kept:
  assumes "games (maps R) k = Some g"
  shows "\<exists>g'. games (maps (fst (cleanupDisconnectedPlayers now clock order R))) k = Some g'
              \<and> session_kept g g'"
  using sweep_maps[of now clock order R]
proof
  assume "maps (fst (cleanupDisconnectedPlayers now clock order R)) = maps R"
  with assms show ?thesis by (simp add: session_kept_refl)
next
  assume "\<exists>mu. maps (fst (cleanupDisconnectedPlayers now clock order R))
            = maps (fst (cleanup_loop now clock order (R\<lparr>mutex := mu\<rparr>) []))"
  then obtain mu where e: "maps (fst (cleanupDisconnectedPlayers now clock order R))
            = maps (fst (cleanup_loop now clock order (R\<lparr>mutex := mu\<rparr>) []))" by blast
  have "games (maps (R\<lparr>mutex := mu\<rparr>)) k = Some g" using assms by simp
  from cleanup_loop_kept[OF this, of now clock order "[]"] e show ?thesis by simp
qed

lemma apply_op_kept:
  assumes "games (maps R) k = Some g"
  shows "\<exists>g'. games (maps (apply_op op R)) k = Some g' \<and> session_kept g g'"
  using assms by (cases op) (simp_all add: MakeMove_call_kept sweep_kept)

lemma fold_apply_op_kept:
  "games (maps R) k = Some g \<Longrightarrow>
     \<exists>g'. games (maps (fold apply_op ops R)) k = Some g' \<and> session_kept g g'"
proof (induction ops arbitrary: R g)
  case Nil
  then show ?case by (simp add: session_kept_refl)
next
  case (Cons op ops)
  from apply_op_kept[OF Cons.prems, of op] obtain g1 where
    g1: "games (maps (apply_op op R)) k = Some g1" "session_kept g g1" by blast
  from Cons.IH[OF g1(1)] obtain g' where
    "games (maps (fold apply_op ops (apply_op op R))) k = Some g'" "session_kept g1 g'" by blast
  with g1(2) show ?case using session_kept_trans by auto
qed

text \<open>
  Claim C6. Along any sequence of \<open>MakeMove\<close> calls (on any sessions) and sweep runs,
  made on a registry whose mutex is free at the start, a session stays in the map, every
  cell of its board that is occupied keeps its value, and a session that is Finished stays
  Finished with the same board, winner and finish time. (The lemmas above show the same from
  any state of the mutex, and for the loop of the sweep whether or not \<open>BroadcastToGame\<close>
  gets the lock.)
\<close>

theorem finished_stays_finished:
  assumes "games m gameID = Some g"
  shows "\<exists>g'. games (run_ops ops m) gameID = Some g'
          \<and> (\<forall>r c. cell (Board g) r c \<noteq> 0 \<longrightarrow> cell (Board g') r c = cell (Board g) r c)
          \<and> (State g = GameStateFinished \<longrightarrow>
                State g' = GameStateFinished \<and> Board g' = Board g \<and> Winner g' = Winner g
                \<and> FinishedAt g' = FinishedAt g)"
proof -
  have "games (maps \<lparr>maps = m, mutex = Unlocked\<rparr>) gameID = Some g" using assms by simp
  from fold_apply_op_kept[OF this, of ops] show ?thesis
    by (simp add: run_ops_def session_kept_def)
qed

lemma manager_inv_CreateGame:
  "manager_inv m \<Longrightarrow> manager_inv (fst (CreateGame now newID m player1 player2))"
  by (simp add: manager_inv_def CreateGame_def Let_def)

lemma cleanup_players_inv:
  "State game = GameStatePlaying \<Longrightarrow> Winner game = None \<Longrightarrow>
   State (fst (cleanup_players now now2 gameID game ps)) = GameStatePlaying \<Longrightarrow>
   Winner (fst (cleanup_players now now2 gameID game ps)) = None"
  by (induction ps) (auto simp: Let_def split: if_splits option.splits)

lemma cleanup_game_inv:
  assumes "State g = GameStatePlaying \<longrightarrow> Winner g = None"
      and "State (fst (cleanup_game now now2 gameID g)) = GameStatePlaying"
  shows "Winner (fst (cleanup_game now now2 gameID g)) = None"
  using assms cleanup_players_inv[of g now now2 gameID "players_list g"]
  by (auto simp: cleanup_game_def split: if_splits)

lemma manager_inv_upd:
  assumes "manager_inv m" "State g' = GameStatePlaying \<longrightarrow> Winner g' = None"
  shows "manager_inv (m\<lparr>games := (games m)(k \<mapsto> g')\<rparr>)"
  using assms by (simp add: manager_inv_def)

lemma manager_inv_Manager_MakeMove:
  assumes inv: "manager_inv m"
  shows "manager_inv (fst (Manager_MakeMove ts now m gameID playerID column))"
proof (cases "snd (Manager_MakeMove ts now m gameID playerID column)")
  case (Inl e)
  then have "fst (Manager_MakeMove ts now m gameID playerID column) = m" by (rule make_move_failure)
  with inv show ?thesis by simp
next
  case (Inr mv)
  obtain g0 where g0: "games m gameID = Some g0"
    using Inr by (cases "games m gameID") (simp_all add: Manager_MakeMove_def)
  obtain m' where c: "Manager_MakeMove ts now m gameID playerID column = (m', Inr mv)"
    using Inr by (cases "Manager_MakeMove ts now m gameID playerID column") simp
  note s = make_move_success[OF g0 c]
  from s have pl: "State g0 = GameStatePlaying" by simp
  from inv g0 pl have w: "Winner g0 = None" unfolding manager_inv_def by blast
  have f: "State (fst (Game_MakeMove ts g0 column (CurrentTurn g0))) = State g0"
     "Winner (fst (Game_MakeMove ts g0 column (CurrentTurn g0))) = Winner g0"
    using Game_MakeMove_fields[of ts g0 column "CurrentTurn g0"
        "fst (Game_MakeMove ts g0 column (CurrentTurn g0))" "snd (Game_MakeMove ts g0 column (CurrentTurn g0))"]
    by simp_all
  have "State (after_move now mv t g1) = GameStatePlaying \<longrightarrow> Winner (after_move now mv t g1) = Winner g1" for t g1
    by (simp add: after_move_def split: option.splits)
  with f w have new: "State (after_move now mv (CurrentTurn g0) (fst (Game_MakeMove ts g0 column (CurrentTurn g0)))) = GameStatePlaying
      \<longrightarrow> Winner (after_move now mv (CurrentTurn g0) (fst (Game_MakeMove ts g0 column (CurrentTurn g0)))) = None"
    by simp
  have "m' = m\<lparr>games := (games m)(gameID \<mapsto>
      after_move now mv (CurrentTurn g0) (fst (Game_MakeMove ts g0 column (CurrentTurn g0))))\<rparr>"
    using s by simp
  with manager_inv_upd[OF inv new] show ?thesis by (simp add: c)
qed

lemma manager_inv_cleanup_loop:
  "manager_inv (maps R) \<Longrightarrow> manager_inv (maps (fst (cleanup_loop now clock order R sent)))"
proof (induction order arbitrary: R sent)
  case Nil
  then show ?case by simp
next
  case (Cons gameID rest)
  show ?case
  proof (cases "games (maps R) gameID")
    case None
    with Cons show ?thesis by simp
  next
    case (Some game)
    obtain game' msg where cg: "cleanup_game now (clock gameID) gameID game = (game', msg)"
      by (cases "cleanup_game now (clock gameID) gameID game")
    define R1 where "R1 = R\<lparr>maps := (maps R)\<lparr>games := (games (maps R))(gameID \<mapsto> game')\<rparr>\<rparr>"
    from Cons.prems Some have "State game = GameStatePlaying \<longrightarrow> Winner game = None"
      by (simp add: manager_inv_def)
    from cleanup_game_inv[OF this, of now "clock gameID" gameID] cg
    have "State game' = GameStatePlaying \<longrightarrow> Winner game' = None" by simp
    from manager_inv_upd[OF Cons.prems this] have i1: "manager_inv (maps R1)" by (simp add: R1_def)
    have "fst (cleanup_loop now clock (gameID # rest) R sent) = R1
        \<or> (\<exists>sent'. fst (cleanup_loop now clock (gameID # rest) R sent)
                     = fst (cleanup_loop now clock rest R1 sent'))"
      using Some cg unfolding R1_def by (auto simp: Let_def split: option.splits)
    then show ?thesis
    proof
      assume "fst (cleanup_loop now clock (gameID # rest) R sent) = R1"
      with i1 show ?thesis by simp
    next
      assume "\<exists>sent'. fst (cleanup_loop now clock (gameID # rest) R sent)
                     = fst (cleanup_loop now clock rest R1 sent')"
      then obtain sent' where "fst (cleanup_loop now clock (gameID # rest) R sent)
                     = fst (cleanup_loop now clock rest R1 sent')" by blast
      with Cons.IH[OF i1, of sent'] show ?thesis by simp
    qed
  qed
qed

lemma manager_inv_apply_op: "manager_inv (maps R) \<Longrightarrow> manager_inv (maps (apply_op op R))"
proof (cases op)
  case (OpMakeMove ts now gameID playerID column)
  assume inv: "manager_inv (maps R)"
  show ?thesis
  proof (cases "Lock (mutex R)")
    case None
    with inv show ?thesis by (simp add: OpMakeMove MakeMove_call_def)
  next
    case (Some mu)
    with manager_inv_Manager_MakeMove[OF inv, of ts now gameID playerID column] show ?thesis
      by (simp add: OpMakeMove MakeMove_call_def split_def Let_def)
  qed
next
  case (OpSweep now clock order)
  assume inv: "manager_inv (maps R)"
  from sweep_maps[of now clock order R] show ?thesis
  proof
    assume "maps (fst (cleanupDisconnectedPlayers now clock order R)) = maps R"
    with inv show ?thesis by (simp add: OpSweep)
  next
    assume "\<exists>mu. maps (fst (cleanupDisconnectedPlayers now clock order R))
            = maps (fst (cleanup_loop now clock order (R\<lparr>mutex := mu\<rparr>) []))"
    then obtain mu where e: "maps (fst (cleanupDisconnectedPlayers now clock order R))
            = maps (fst (cleanup_loop now clock order (R\<lparr>mutex := mu\<rparr>) []))" by blast
    have "manager_inv (maps (R\<lparr>mutex := mu\<rparr>))" using inv by simp
    from manager_inv_cleanup_loop[OF this, of now clock order "[]"] e show ?thesis
      by (simp add: OpSweep)
  qed
qed

lemma manager_inv_fold: "manager_inv (maps R) \<Longrightarrow> manager_inv (maps (fold apply_op ops R))"
  by (induction ops arbitrary: R) (simp_all add: manager_inv_apply_op)

lemma manager_inv_run_ops: "manager_inv m \<Longrightarrow> manager_inv (run_ops ops m)"
  unfolding run_ops_def by (rule manager_inv_fold) simp

lemma manager_inv_empty: "manager_inv \<lparr>games = Map.empty, players = ps\<rparr>"
  by (simp add: manager_inv_def)

section \<open>Instances\<close>

lemmas board_eval_defs =
  CheckWinner_def check_cell_def checkLine_def cell_def set_cell_def IsValidMove_def
  Game_MakeMove_def Let_def PlayerColor_of_int_def IsBoardFull_def

theorem check_winner_scan_witness:
  "board_dims (Board (game_with GameStateFinished yellow_over_red (alice, bob) PlayerRed))
   \<and> cells_ok (Board (game_with GameStateFinished yellow_over_red (alice, bob) PlayerRed))
   \<and> CheckWinner (game_with GameStateFinished yellow_over_red (alice, bob) PlayerRed) = Some PlayerYellow
   \<and> CheckWinner (game_with GameStateFinished bottom_four (alice, bob) PlayerRed) = Some PlayerRed
   \<and> CheckWinner (game_with GameStateFinished drawn_board (alice, bob) PlayerRed) = None"
proof -
  have d: "board_dims (Board (game_with GameStateFinished yellow_over_red (alice, bob) PlayerRed))"
      "board_dims (Board (game_with GameStateFinished bottom_four (alice, bob) PlayerRed))"
      "board_dims (Board (game_with GameStateFinished drawn_board (alice, bob) PlayerRed))"
    by (simp_all add: game_with_def yellow_over_red_def bottom_four_def drawn_board_def board_dims_def)
  have c: "cells_ok (Board (game_with GameStateFinished yellow_over_red (alice, bob) PlayerRed))"
      "cells_ok (Board (game_with GameStateFinished bottom_four (alice, bob) PlayerRed))"
      "cells_ok (Board (game_with GameStateFinished drawn_board (alice, bob) PlayerRed))"
    by (simp_all add: game_with_def yellow_over_red_def bottom_four_def drawn_board_def cells_ok_def)
  have s: "spec_CheckWinner yellow_over_red = Some PlayerYellow"
      "spec_CheckWinner bottom_four = Some PlayerRed"
      "spec_CheckWinner drawn_board = None"
    by (simp_all add: spec_CheckWinner_def spec_tests_def scan_order_def directions_def
        four_in_line_def in_bounds_def cell_colour_def cell_def
        yellow_over_red_def bottom_four_def drawn_board_def)
  from check_winner_scan[OF d(1) c(1)] check_winner_scan[OF d(2) c(2)] check_winner_scan[OF d(3) c(3)]
    s d(1) c(1) show ?thesis
    by (simp add: game_with_def)
qed

lemma one_threat_facts:
  "find (wins_by 0 (game_with GameStatePlaying one_threat (alice, bob) PlayerYellow) PlayerYellow)
      [0, 1, 2, 3, 4, 5, 6] = None"
  "wins_by 0 (game_with GameStatePlaying one_threat (alice, bob) PlayerYellow) (opponent_of PlayerYellow) 4"
  "\<not> wins_by 0 (game_with GameStatePlaying one_threat (alice, bob) PlayerYellow) (opponent_of PlayerYellow) 0"
  "\<not> wins_by 0 (game_with GameStatePlaying one_threat (alice, bob) PlayerYellow) (opponent_of PlayerYellow) 1"
  "\<not> wins_by 0 (game_with GameStatePlaying one_threat (alice, bob) PlayerYellow) (opponent_of PlayerYellow) 2"
  "\<not> wins_by 0 (game_with GameStatePlaying one_threat (alice, bob) PlayerYellow) (opponent_of PlayerYellow) 3"
  by (simp_all add: wins_by_def opponent_of_def game_with_def one_threat_def board_eval_defs)

theorem bot_strategy_witness:
  "find (wins_by 0 (game_with GameStatePlaying one_threat (alice, bob) PlayerYellow) PlayerYellow)
      [0, 1, 2, 3, 4, 5, 6] = None
   \<and> wins_by 0 (game_with GameStatePlaying one_threat (alice, bob) PlayerYellow) (opponent_of PlayerYellow) 4
   \<and> GetBestMove 0 first_choice (game_with GameStatePlaying one_threat (alice, bob) PlayerYellow) PlayerYellow = 4"
  using bot_strategy[of 0 first_choice "game_with GameStatePlaying one_threat (alice, bob) PlayerYellow" PlayerYellow]
    one_threat_facts
  by blast

lemma two_threats_facts:
  "CheckWinner (game_with GameStatePlaying two_threats (alice, bob) PlayerYellow) = None"
  "find (wins_by 0 (game_with GameStatePlaying two_threats (alice, bob) PlayerYellow) PlayerYellow)
      [0, 1, 2, 3, 4, 5, 6] = None"
  "find (wins_by 0 (game_with GameStatePlaying two_threats (alice, bob) PlayerYellow) PlayerRed)
      [0, 1, 2, 3, 4, 5, 6] = Some 0"
  "wins_by 0 (game_with GameStatePlaying two_threats (alice, bob) PlayerYellow) PlayerRed 4"
  by (simp_all add: wins_by_def game_with_def two_threats_def board_eval_defs)

text \<open>
  Claim C7 as stated fails in its last part. On the board \<open>two_threats\<close> there is no winner,
  Yellow (the bot) has no winning column, Red wins by playing column 4, and the bot returns
  0, the lowest column by which Red wins, not 4.
\<close>

theorem bot_strategy_counterexample:
  "CheckWinner (game_with GameStatePlaying two_threats (alice, bob) PlayerYellow) = None
   \<and> findWinningMove 0 (game_with GameStatePlaying two_threats (alice, bob) PlayerYellow) PlayerYellow = -1
   \<and> IsValidMove (game_with GameStatePlaying two_threats (alice, bob) PlayerYellow) 4
   \<and> CheckWinner (fst (Game_MakeMove 0 (game_with GameStatePlaying two_threats (alice, bob) PlayerYellow)
                          4 PlayerRed)) = Some PlayerRed
   \<and> GetBestMove 0 first_choice (game_with GameStatePlaying two_threats (alice, bob) PlayerYellow) PlayerYellow = 0
   \<and> GetBestMove 0 first_choice (game_with GameStatePlaying two_threats (alice, bob) PlayerYellow) PlayerYellow \<noteq> 4"
  using two_threats_facts
  by (simp add: GetBestMove_spec spec_strategy_def findWinningMove_find opponent_of_def wins_by_def)

theorem bot_leaves_game_witness:
  "objs (store_with (game_with GameStatePlaying one_threat (alice, bob) PlayerYellow)) 0
      = Some (game_with GameStatePlaying one_threat (alice, bob) PlayerYellow)
   \<and> 0 < fresh (store_with (game_with GameStatePlaying one_threat (alice, bob) PlayerYellow))
   \<and> (\<exists>s'. GetBestMove_at 0 first_choice
               (store_with (game_with GameStatePlaying one_threat (alice, bob) PlayerYellow)) 0 PlayerYellow
             = Some (s', 4)
           \<and> objs s' 0 = Some (game_with GameStatePlaying one_threat (alice, bob) PlayerYellow))"
proof -
  have h1: "objs (store_with (game_with GameStatePlaying one_threat (alice, bob) PlayerYellow)) 0
      = Some (game_with GameStatePlaying one_threat (alice, bob) PlayerYellow)"
    by (simp add: store_with_def)
  have h2: "0 < fresh (store_with (game_with GameStatePlaying one_threat (alice, bob) PlayerYellow))"
    by (simp add: store_with_def)
  have best: "GetBestMove 0 first_choice (game_with GameStatePlaying one_threat (alice, bob) PlayerYellow) PlayerYellow = 4"
    using one_threat_facts by (simp add: GetBestMove_spec spec_strategy_def)
  from bot_leaves_game[OF h1 h2, of 0 first_choice PlayerYellow] best h1 h2 show ?thesis
    by auto
qed



lemma bottom_three_move:
  "snd (Manager_MakeMove 5 6 (manager_with (game_with GameStatePlaying bottom_three (alice, bob) PlayerRed)) 1 10 3)
     = Inr \<lparr>PlayerID = 10, Column = 3, Row = 5, MoveColor = PlayerRed, Timestamp = 5\<rparr>"
  "CheckWinner (fst (Game_MakeMove 5 (game_with GameStatePlaying bottom_three (alice, bob) PlayerRed) 3 PlayerRed))
     = Some PlayerRed"
  by (simp_all add: Manager_MakeMove_def find_player_def players_list_def manager_with_def game_with_def
      alice_def bob_def bottom_three_def board_eval_defs)

theorem make_move_outcome_witness:
  "games (manager_with (game_with GameStatePlaying bottom_three (alice, bob) PlayerRed)) 1
     = Some (game_with GameStatePlaying bottom_three (alice, bob) PlayerRed)
   \<and> State (game_with GameStatePlaying bottom_three (alice, bob) PlayerRed) = GameStatePlaying
   \<and> manager_inv (manager_with (game_with GameStatePlaying bottom_three (alice, bob) PlayerRed))
   \<and> snd (Manager_MakeMove 5 6 (manager_with (game_with GameStatePlaying bottom_three (alice, bob) PlayerRed)) 1 10 3)
       = Inr \<lparr>PlayerID = 10, Column = 3, Row = 5, MoveColor = PlayerRed, Timestamp = 5\<rparr>
   \<and> (\<exists>g'. games (fst (Manager_MakeMove 5 6
                 (manager_with (game_with GameStatePlaying bottom_three (alice, bob) PlayerRed)) 1 10 3)) 1 = Some g'
          \<and> State g' = GameStateFinished \<and> Winner g' = Some PlayerRed \<and> FinishedAt g' = Some 6
          \<and> CurrentTurn g' = PlayerRed)"
proof -
  let ?g = "game_with GameStatePlaying bottom_three (alice, bob) PlayerRed"
  let ?m = "manager_with ?g"
  let ?mv = "\<lparr>PlayerID = 10, Column = 3, Row = 5, MoveColor = PlayerRed, Timestamp = 5\<rparr>"
  have h1: "games ?m 1 = Some ?g" by (simp add: manager_with_def)
  have h2: "State ?g = GameStatePlaying" by (simp add: game_with_def)
  have h3: "manager_inv ?m" by (simp add: manager_inv_def manager_with_def game_with_def)
  have turn: "CurrentTurn ?g = PlayerRed" by (simp add: game_with_def)
  have h4: "Manager_MakeMove 5 6 ?m 1 10 3 = (fst (Manager_MakeMove 5 6 ?m 1 10 3), Inr ?mv)"
    using bottom_three_move(1) by (simp add: prod_eq_iff)
  from make_move_outcome[OF h3 h1 h2 h4] obtain g' where
    g': "games (fst (Manager_MakeMove 5 6 ?m 1 10 3)) 1 = Some g'"
        "Board g' = Board (fst (Game_MakeMove 5 ?g 3 (CurrentTurn ?g)))"
        "\<forall>w. CheckWinner g' = Some w \<longrightarrow>
                State g' = GameStateFinished \<and> Winner g' = Some w \<and> FinishedAt g' = Some 6
                \<and> CurrentTurn g' = CurrentTurn ?g"
    by blast
  from g'(2) have "CheckWinner g' = Some PlayerRed"
    using bottom_three_move(2) CheckWinner_Board[OF g'(2)] by (simp add: turn)
  with g'(1,3) turn have "\<exists>g'. games (fst (Manager_MakeMove 5 6 ?m 1 10 3)) 1 = Some g'
          \<and> State g' = GameStateFinished \<and> Winner g' = Some PlayerRed \<and> FinishedAt g' = Some 6
          \<and> CurrentTurn g' = PlayerRed"
    by auto
  with h1 h2 h3 bottom_three_move(1) show ?thesis by blast
qed

theorem finished_stays_finished_witness:
  "games (manager_with (game_with GameStateFinished bottom_four (alice, bob) PlayerRed)) 1
     = Some (game_with GameStateFinished bottom_four (alice, bob) PlayerRed)
   \<and> State (game_with GameStateFinished bottom_four (alice, bob) PlayerRed) = GameStateFinished
   \<and> (\<exists>g'. games (run_ops [OpMakeMove 5 6 1 20 3, OpSweep 31000000000 sweep_clock [1]]
                    (manager_with (game_with GameStateFinished bottom_four (alice, bob) PlayerRed))) 1 = Some g'
          \<and> State g' = GameStateFinished
          \<and> Board g' = bottom_four \<and> Winner g' = None \<and> FinishedAt g' = None)"
proof -
  let ?g = "game_with GameStateFinished bottom_four (alice, bob) PlayerRed"
  have h1: "games (manager_with ?g) 1 = Some ?g" by (simp add: manager_with_def)
  have h2: "State ?g = GameStateFinished" "Board ?g = bottom_four" "Winner ?g = None" "FinishedAt ?g = None"
    by (simp_all add: game_with_def)
  from finished_stays_finished[OF h1, of "[OpMakeMove 5 6 1 20 3, OpSweep 31000000000 sweep_clock [1]]"]
    h1 h2 show ?thesis by auto
qed

text \<open>
  Claim C9. Two Playing sessions in which nobody is connected and alice was last seen 31 s
  before the sweep. The sweep, ranging over the sessions in the order 1, 2, ends session 1
  (Finished, finish time set, no winner), then waits for ever in \<open>BroadcastToGame\<close> with the
  write lock held: session 2 stays Playing, and a later sweep waits for the lock.
\<close>

theorem sweep_leaves_second_session:
  "map_option State (games (maps (fst (cleanupDisconnectedPlayers 31000000000 sweep_clock [1, 2]
        (registry_with two_abandoned)))) 1) = Some GameStateFinished
   \<and> map_option FinishedAt (games (maps (fst (cleanupDisconnectedPlayers 31000000000 sweep_clock [1, 2]
        (registry_with two_abandoned)))) 1) = Some (Some 31000000005)
   \<and> map_option Winner (games (maps (fst (cleanupDisconnectedPlayers 31000000000 sweep_clock [1, 2]
        (registry_with two_abandoned)))) 1) = Some None
   \<and> map_option State (games (maps (fst (cleanupDisconnectedPlayers 31000000000 sweep_clock [1, 2]
        (registry_with two_abandoned)))) 2) = Some GameStatePlaying
   \<and> mutex (fst (cleanupDisconnectedPlayers 31000000000 sweep_clock [1, 2]
        (registry_with two_abandoned))) = WriteLocked
   \<and> snd (cleanupDisconnectedPlayers 62000000000 sweep_clock [2, 1]
        (fst (cleanupDisconnectedPlayers 31000000000 sweep_clock [1, 2] (registry_with two_abandoned))))
       = SweepWaits"
  by (simp add: cleanupDisconnectedPlayers_def cleanup_game_def players_list_def BroadcastToGame_def
      Lock_def RLock_def gracePeriod_def Let_def registry_with_def two_abandoned_def game_with_def
      alice_def bob_def bob_offline_def sweep_clock_def)

text \<open>
  Claim C1. A Playing session: alice is not connected and was last seen 31 s before the
  sweep, bob is connected and has a connection. The sweep ends the session, records bob's
  colour as winner and sets the finish time. The message it builds for \<open>BroadcastToGame\<close>
  has an empty winner field, though the game it carries has bob's colour as winner; and the
  call of \<open>BroadcastToGame\<close> waits for the lock the sweep holds, so nothing is delivered.
\<close>

theorem sweep_broadcast_omits_winner:
  "map_option State (games (maps (fst (cleanupDisconnectedPlayers 31000000000 sweep_clock [1]
        (registry_with (manager_with (game_with GameStatePlaying empty_board (alice, bob) PlayerRed)))))) 1)
     = Some GameStateFinished
   \<and> map_option Winner (games (maps (fst (cleanupDisconnectedPlayers 31000000000 sweep_clock [1]
        (registry_with (manager_with (game_with GameStatePlaying empty_board (alice, bob) PlayerRed)))))) 1)
     = Some (Some PlayerYellow)
   \<and> map_option FinishedAt (games (maps (fst (cleanupDisconnectedPlayers 31000000000 sweep_clock [1]
        (registry_with (manager_with (game_with GameStatePlaying empty_board (alice, bob) PlayerRed)))))) 1)
     = Some (Some 31000000005)
   \<and> map_option (PayloadWinner \<circ> Payload)
        (blocked_message (snd (cleanupDisconnectedPlayers 31000000000 sweep_clock [1]
          (registry_with (manager_with (game_with GameStatePlaying empty_board (alice, bob) PlayerRed))))))
     = Some None
   \<and> map_option (Winner \<circ> PayloadGameState \<circ> Payload)
        (blocked_message (snd (cleanupDisconnectedPlayers 31000000000 sweep_clock [1]
          (registry_with (manager_with (game_with GameStatePlaying empty_board (alice, bob) PlayerRed))))))
     = Some (Some PlayerYellow)
   \<and> deliveries (snd (cleanupDisconnectedPlayers 31000000000 sweep_clock [1]
        (registry_with (manager_with (game_with GameStatePlaying empty_board (alice, bob) PlayerRed)))))
     = []"
  by (simp add: cleanupDisconnectedPlayers_def cleanup_game_def players_list_def BroadcastToGame_def
      Lock_def RLock_def gracePeriod_def Let_def registry_with_def manager_with_def game_with_def
      alice_def bob_def sweep_clock_def)

lemma worker_turn_idle:
  "addChan q = [] \<Longrightarrow> removeChan q = [] \<Longrightarrow> worker_turn sched (t, q) = (Suc t, q)"
proof -
  assume a: "addChan q = []" "removeChan q = []"
  have "fold queueProcessor_step rs q = q" for rs
  proof (induction rs)
    case Nil
    show ?case by simp
  next
    case (Cons r rs)
    have "queueProcessor_step r q = q" using a by (cases r) simp_all
    with Cons show ?case by simp
  qed
  then show ?thesis by (simp add: worker_turn_def queueProcessor_run_def)
qed

lemma processMatches_loop_first:
  assumes "GetEntry (snd (worker_turn sched tq)) (QPlayerID entry1) = Some e"
      and "GetCompatibleMatch (iter (QPlayerID entry1))
             (snd (worker_turn sched (worker_turn sched tq))) entry1 = Some found"
  shows "\<exists>ok calls. snd (processMatches_loop sched creates clock iter (entry1 # rest) tq)
           = (entry1, found, ok) # calls"
  using assms by (simp add: Let_def split_def)

text \<open>
  With the worker idle during the pass and games always created, the same pass hands out
  three matches: the entries matched first are still in the map and are matched again.
\<close>

lemma matching_pass_idle_worker:
  "map (\<lambda>(a, b, ok). (QPlayerID a, QPlayerID b))
       (snd (processMatches [3, 2, 1] newest_first idle_worker always_created pass_clock three_waiting))
     = [(3, 2), (2, 3), (1, 3)]"
  by (simp add: processMatches_def GetAllEntries_def List.map_filter_def GetEntry_def
      GetCompatibleMatch_def createPlayerMatch_def worker_turn_def queueProcessor_run_def
      Queue_Remove_def chanCap_def areCompatible_def abs_int_def int64_def Let_def
      three_waiting_def queue_entry_def newest_first_def idle_worker_def always_created_def)

text \<open>
  Claim C8. Three compatible entries joined at times 10, 20 and 30, the channels empty.
  When the map yields the keys in the order 3, 2, 1, the first pair the pass hands to
  \<open>createPlayerMatch\<close> is the entries that joined at 30 and 20, whatever the worker does
  meanwhile and whether or not the game is created; the entries that joined at 10 and 20 are
  compatible and both in the queue.
\<close>

theorem matching_ignores_join_time:
  "(\<exists>ok rest. snd (processMatches [3, 2, 1] newest_first sched creates clock three_waiting)
                = (queue_entry 3 30 5, queue_entry 2 20 5, ok) # rest)
   \<and> entries three_waiting 1 = Some (queue_entry 1 10 5)
   \<and> entries three_waiting 2 = Some (queue_entry 2 20 5)
   \<and> areCompatible (queue_entry 1 10 5) (queue_entry 2 20 5)"
proof -
  have ch: "addChan three_waiting = []" "removeChan three_waiting = []"
    by (simp_all add: three_waiting_def)
  have all: "GetAllEntries [3, 2, 1] three_waiting
      = [queue_entry 3 30 5, queue_entry 2 20 5, queue_entry 1 10 5]"
    by (simp add: GetAllEntries_def List.map_filter_def three_waiting_def)
  have ge: "GetEntry three_waiting (QPlayerID (queue_entry 3 30 5)) = Some (queue_entry 3 30 5)"
    by (simp add: GetEntry_def three_waiting_def queue_entry_def)
  have gc: "GetCompatibleMatch (newest_first (QPlayerID (queue_entry 3 30 5))) three_waiting
              (queue_entry 3 30 5) = Some (queue_entry 2 20 5)"
    by (simp add: GetCompatibleMatch_def newest_first_def three_waiting_def queue_entry_def
        areCompatible_def abs_int_def int64_def)
  have w: "worker_turn sched (t, three_waiting) = (Suc t, three_waiting)" for t
    by (rule worker_turn_idle[OF ch])
  have pm: "processMatches [3, 2, 1] newest_first sched creates clock three_waiting
      = processMatches_loop sched creates clock newest_first
          (queue_entry 3 30 5 # [queue_entry 2 20 5, queue_entry 1 10 5]) (Suc 0, three_waiting)"
    unfolding processMatches_def Let_def w snd_conv all ..
  have "\<exists>ok rest. snd (processMatches [3, 2, 1] newest_first sched creates clock three_waiting)
                = (queue_entry 3 30 5, queue_entry 2 20 5, ok) # rest"
    unfolding pm
    by (rule processMatches_loop_first[where e = "queue_entry 3 30 5"]) (simp_all only: w snd_conv ge gc)
  moreover have "areCompatible (queue_entry 1 10 5) (queue_entry 2 20 5)"
    by (simp add: areCompatible_def abs_int_def int64_def queue_entry_def)
  ultimately show ?thesis by (simp add: three_waiting_def)
qed

end
